theory Spec2Isabelle
  imports Complex_Main "HOL-Library.Product_Lexorder"
begin

section \<open>Text\<close>

text \<open>
  Python strings are modelled as \<open>string\<close> (lists of 8-bit characters) and read as ASCII
  text: the character classes below are the ASCII part of \<open>str.isspace\<close>, of the
  regular expression classes \<open>\s\<close> and \<open>\d\<close>, and of \<open>str.lower\<close>/\<open>str.upper\<close>.
\<close>

definition code :: "char \<Rightarrow> nat" where
  "code c = of_char c"

definition is_space :: "char \<Rightarrow> bool" where
  \<comment> \<open>\<open>str.isspace\<close> and \<open>\s\<close>: TAB, LF, VT, FF, CR, FS, GS, RS, US and the blank\<close>
  "is_space c = ((9 \<le> code c \<and> code c \<le> 13) \<or> (28 \<le> code c \<and> code c \<le> 32))"

definition is_digit :: "char \<Rightarrow> bool" where
  "is_digit c = (48 \<le> code c \<and> code c \<le> 57)"

definition lower_char :: "char \<Rightarrow> char" where
  "lower_char c = (if 65 \<le> code c \<and> code c \<le> 90 then char_of (code c + 32) else c)"

definition upper_char :: "char \<Rightarrow> char" where
  "upper_char c = (if 97 \<le> code c \<and> code c \<le> 122 then char_of (code c - 32) else c)"

definition lower :: "string \<Rightarrow> string" where
  \<comment> \<open>\<open>s.lower()\<close>\<close>
  "lower s = map lower_char s"

definition upper :: "string \<Rightarrow> string" where
  \<comment> \<open>\<open>s.upper()\<close>\<close>
  "upper s = map upper_char s"

definition isdigit :: "string \<Rightarrow> bool" where
  \<comment> \<open>\<open>s.isdigit()\<close>: false on the empty string\<close>
  "isdigit s = (s \<noteq> [] \<and> list_all is_digit s)"

definition strip :: "string \<Rightarrow> string" where
  \<comment> \<open>\<open>s.strip()\<close>\<close>
  "strip s = rev (dropWhile is_space (rev (dropWhile is_space s)))"

fun collapse_ws :: "string \<Rightarrow> string" where
  \<comment> \<open>\<open>re.sub(r"\s+", " ", s)\<close>: every maximal run of whitespace becomes one blank\<close>
  "collapse_ws [] = []"
| "collapse_ws [c] = (if is_space c then '' '' else [c])"
| "collapse_ws (c # d # cs) =
     (if is_space c then (if is_space d then collapse_ws (d # cs) else CHR '' '' # collapse_ws (d # cs))
      else c # collapse_ws (d # cs))"

definition normalize_ws :: "string \<Rightarrow> string" where
  \<comment> \<open>\<open>re.sub(r"\s+", " ", (s or "").strip())\<close>\<close>
  "normalize_ws s = collapse_ws (strip s)"

section \<open>Exceptions\<close>

datatype py_error = ValueError | TypeError | AttributeError | RequestException | ParserError

fun py_int :: "string option \<Rightarrow> py_error + int" where
  \<comment> \<open>\<open>int(x)\<close> for \<open>x\<close> a decimal digit string or \<open>None\<close>\<close>
  "py_int None = Inl TypeError"
| "py_int (Some s) =
     (if isdigit s then Inr (foldl (\<lambda>a c. 10 * a + (int (code c) - 48)) 0 s) else Inl ValueError)"

section \<open>Timestamps\<close>

text \<open>
  A naive \<open>datetime\<close>. The program builds timestamps only with the five-argument
  constructor, so the microsecond field (always 0) is left out.
\<close>

record datetime =
  year :: int
  month :: int
  day :: int
  hour :: int
  minute :: int
  second :: int

definition is_leap :: "int \<Rightarrow> bool" where
  "is_leap y = (y mod 4 = 0 \<and> (y mod 100 \<noteq> 0 \<or> y mod 400 = 0))"

definition days_in_month :: "int \<Rightarrow> int \<Rightarrow> int" where
  "days_in_month y m =
     (if m = 2 then (if is_leap y then 29 else 28)
      else if m = 4 \<or> m = 6 \<or> m = 9 \<or> m = 11 then 30 else 31)"

definition valid_fields :: "int \<Rightarrow> int \<Rightarrow> int \<Rightarrow> int \<Rightarrow> int \<Rightarrow> bool" where
  \<comment> \<open>the range checks of the \<open>datetime\<close> constructor\<close>
  "valid_fields y mo d h mi =
     (1 \<le> y \<and> y \<le> 9999 \<and> 1 \<le> mo \<and> mo \<le> 12 \<and> 1 \<le> d \<and> d \<le> days_in_month y mo \<and>
      0 \<le> h \<and> h \<le> 23 \<and> 0 \<le> mi \<and> mi \<le> 59)"

definition mk_datetime :: "int \<Rightarrow> int \<Rightarrow> int \<Rightarrow> int \<Rightarrow> int \<Rightarrow> py_error + datetime" where
  \<comment> \<open>\<open>datetime(y, mo, d, h, mi)\<close>: seconds default to 0; a field out of range raises \<open>ValueError\<close>\<close>
  "mk_datetime y mo d h mi =
     (if valid_fields y mo d h mi
      then Inr \<lparr>year = y, month = mo, day = d, hour = h, minute = mi, second = 0\<rparr>
      else Inl ValueError)"

section \<open>Regular expressions\<close>

text \<open>
  The fragment of \<open>re\<close> that the program's pattern uses, compiled with \<open>re.IGNORECASE\<close>:
  literals, greedy bounded and unbounded repetition of a character class, sequence,
  alternative, greedy option and named groups. \<open>rmatch\<close> is the backtracking matcher: it
  lists the ways a pattern matches at the start of the text, in the order \<open>re\<close> tries
  them, each with the rest of the text and the groups captured so far.
\<close>

datatype cclass = Digit | Space

fun in_class :: "cclass \<Rightarrow> char \<Rightarrow> bool" where
  "in_class Digit c = is_digit c"
| "in_class Space c = is_space c"

datatype regex =
    Lit char
  | Rep cclass nat "nat option"
  | Seq regex regex
  | Alt regex regex
  | Opt regex
  | Grp string regex

type_synonym groups = "(string \<times> string) list"

fun rmatch :: "regex \<Rightarrow> string \<times> groups \<Rightarrow> (string \<times> groups) list" where
  "rmatch (Lit c) (s, g) =
     (case s of [] \<Rightarrow> [] | x # xs \<Rightarrow> if lower_char x = lower_char c then [(xs, g)] else [])"
| "rmatch (Rep k lo hi) (s, g) =
     (let n = length (takeWhile (in_class k) s);
          m = (case hi of None \<Rightarrow> n | Some h \<Rightarrow> min h n)
      in map (\<lambda>i. (drop i s, g)) (rev [lo..<Suc m]))"
| "rmatch (Seq a b) st = concat (map (rmatch b) (rmatch a st))"
| "rmatch (Alt a b) st = rmatch a st @ rmatch b st"
| "rmatch (Opt a) st = rmatch a st @ [st]"
| "rmatch (Grp nm a) (s, g) =
     map (\<lambda>(s', g'). (s', (nm, take (length s - length s') s) # g')) (rmatch a (s, g))"

fun re_search :: "regex \<Rightarrow> string \<Rightarrow> groups option" where
  \<comment> \<open>\<open>pattern.search(s)\<close>: the first match at the leftmost position that has one\<close>
  "re_search r s =
     (case rmatch r (s, []) of
        (_, g) # _ \<Rightarrow> Some g
      | [] \<Rightarrow> (case s of [] \<Rightarrow> None | _ # t \<Rightarrow> re_search r t))"

declare re_search.simps [simp del]

definition group :: "groups \<Rightarrow> string \<Rightarrow> string option" where
  \<comment> \<open>\<open>m.group(name)\<close>: \<open>None\<close> for a group that took no part in the match\<close>
  "group g nm = map_of g nm"

definition dt_pattern :: regex where
  \<comment> \<open>\<open>(?P<mon>\d{1,2})/(?P<day>\d{1,2})/(?P<year>\d{4})\s+
      (?P<h>\d{1,2}):(?P<m>\d{2})(?::(?P<s>\d{2}))?\s*(?P<ampm>AM|PM)\<close>\<close>
  "dt_pattern =
     Seq (Grp ''mon'' (Rep Digit 1 (Some 2))) (Seq (Lit CHR ''/'')
    (Seq (Grp ''day'' (Rep Digit 1 (Some 2))) (Seq (Lit CHR ''/'')
    (Seq (Grp ''year'' (Rep Digit 4 (Some 4)))
    (Seq (Rep Space 1 None)
    (Seq (Grp ''h'' (Rep Digit 1 (Some 2))) (Seq (Lit CHR '':'')
    (Seq (Grp ''m'' (Rep Digit 2 (Some 2)))
    (Seq (Opt (Seq (Lit CHR '':'') (Grp ''s'' (Rep Digit 2 (Some 2)))))
    (Seq (Rep Space 0 None)
         (Grp ''ampm'' (Alt (Seq (Lit CHR ''A'') (Lit CHR ''M''))
                            (Seq (Lit CHR ''P'') (Lit CHR ''M''))))))))))))))"

section \<open>parse_dt_line\<close>

definition hour24 :: "int \<Rightarrow> string \<Rightarrow> int" where
  \<comment> \<open>lines 51-52, on the hour and the marker in upper case:
      \<open>if ampm == "PM" and h != 12: h += 12\<close>, \<open>elif ampm == "AM" and h == 12: h = 0\<close>\<close>
  "hour24 h ampm =
     (if ampm = ''PM'' \<and> h \<noteq> 12 then h + 12
      else if ampm = ''AM'' \<and> h = 12 then 0
      else h)"

definition bind :: "py_error + 'a \<Rightarrow> ('a \<Rightarrow> py_error + 'b) \<Rightarrow> py_error + 'b" where
  \<comment> \<open>sequencing of steps that may raise\<close>
  "bind x f = (case x of Inl e \<Rightarrow> Inl e | Inr v \<Rightarrow> f v)"

definition str_upper :: "string option \<Rightarrow> py_error + string" where
  \<comment> \<open>\<open>x.upper()\<close>, which raises \<open>AttributeError\<close> on \<open>None\<close>\<close>
  "str_upper x = (case x of None \<Rightarrow> Inl AttributeError | Some s \<Rightarrow> Inr (upper s))"

definition parse_dt_body :: "string \<Rightarrow> string \<Rightarrow> py_error + datetime option" where
  \<comment> \<open>the \<open>try\<close> block of \<open>parse_dt_line\<close>, lines 41-54\<close>
  "parse_dt_body date_str time_str =
     (let clean_dt = normalize_ws (date_str @ '' '' @ time_str) in
      case re_search dt_pattern clean_dt of
        None \<Rightarrow> Inr None
      | Some m \<Rightarrow>
          bind (py_int (group m ''h'')) (\<lambda>h.
          bind (str_upper (group m ''ampm'')) (\<lambda>ampm.
          bind (py_int (group m ''year'')) (\<lambda>y.
          bind (py_int (group m ''mon'')) (\<lambda>mo.
          bind (py_int (group m ''day'')) (\<lambda>d.
          bind (py_int (group m ''m'')) (\<lambda>mi.
          bind (mk_datetime y mo d (hour24 h ampm) mi) (\<lambda>dt. Inr (Some dt)))))))))"

definition parse_dt_line :: "string \<Rightarrow> string \<Rightarrow> py_error + datetime option" where
  \<comment> \<open>\<open>parse_dt_line\<close>: \<open>except Exception: return None\<close> around the body\<close>
  "parse_dt_line date_str time_str =
     (case parse_dt_body date_str time_str of Inl e \<Rightarrow> Inr None | Inr r \<Rightarrow> Inr r)"

section \<open>Events and their identifiers\<close>

record event =
  dt_start :: datetime
  title :: string
  location :: string

definition digit_char :: "nat \<Rightarrow> char" where
  "digit_char n = char_of (48 + n)"

fun dec :: "nat \<Rightarrow> string" where
  "dec n = (if n < 10 then [digit_char n] else dec (n div 10) @ [digit_char (n mod 10)])"

declare dec.simps [simp del]

definition zpad :: "nat \<Rightarrow> int \<Rightarrow> string" where
  \<comment> \<open>\<open>"%0wd" % n\<close> for a non-negative \<open>n\<close>\<close>
  "zpad w n = replicate (w - length (dec (nat n))) CHR ''0'' @ dec (nat n)"

definition isoformat :: "datetime \<Rightarrow> string" where
  \<comment> \<open>\<open>dt.isoformat()\<close> of a naive timestamp without microseconds: \<open>YYYY-MM-DDTHH:MM:SS\<close>\<close>
  "isoformat d =
     zpad 4 (year d) @ ''-'' @ zpad 2 (month d) @ ''-'' @ zpad 2 (day d) @ ''T'' @
     zpad 2 (hour d) @ '':'' @ zpad 2 (minute d) @ '':'' @ zpad 2 (second d)"

definition uid :: "(string \<Rightarrow> string) \<Rightarrow> event \<Rightarrow> string" where
  \<comment> \<open>\<open>Event.uid\<close>; the first argument is \<open>hashlib.sha1(...).hexdigest()\<close> on the encoded key\<close>
  "uid sha1 e =
     (let key = isoformat (dt_start e) @ ''|'' @ lower (title e);
          h = sha1 key
      in ''cga-'' @ h @ ''@cga.ct.gov'')"

section \<open>parse_events_from_html\<close>

definition is_candidate :: "string \<Rightarrow> bool" where
  \<comment> \<open>line 86: \<open>text and not text.isdigit() and text.lower() != "cga event"\<close>\<close>
  "is_candidate text = (text \<noteq> [] \<and> \<not> isdigit text \<and> lower text \<noteq> ''cga event'')"

definition potential_titles :: "string list \<Rightarrow> string list" where
  \<comment> \<open>lines 83-87, over the texts of \<open>cols[2:]\<close>\<close>
  "potential_titles texts = filter is_candidate (map normalize_ws texts)"

definition select_title :: "string list \<Rightarrow> string \<times> string" where
  \<comment> \<open>lines 90-96: title and location out of the candidate list\<close>
  "select_title pt =
     (let title0 = (if pt \<noteq> [] then pt ! 0 else ''Unknown CGA Meeting'');
          location0 = (if length pt > 1 then pt ! 1 else [])
      in if length title0 < 3 \<and> length pt > 1
         then (pt ! 1, if length pt > 2 then pt ! 2 else [])
         else (title0, location0))"

definition parse_row :: "string list \<Rightarrow> py_error + event option" where
  \<comment> \<open>the body of the loop over rows, lines 66-98; \<open>cols\<close> holds \<open>get_text(strip=True)\<close>
      of every cell of the row\<close>
  "parse_row cols =
     (if length cols < 4 then Inr None
      else bind (parse_dt_line (cols ! 0) (cols ! 1)) (\<lambda>dt.
        case dt of
          None \<Rightarrow> Inr None
        | Some d \<Rightarrow>
            (let (t, l) = select_title (potential_titles (drop 2 cols))
             in Inr (Some \<lparr>dt_start = d, title = t, location = l\<rparr>))))"

fun rows_events :: "string list list \<Rightarrow> py_error + event list" where
  "rows_events [] = Inr []"
| "rows_events (cols # rows) =
     bind (parse_row cols) (\<lambda>r.
     bind (rows_events rows) (\<lambda>es.
       Inr (case r of None \<Rightarrow> es | Some e \<Rightarrow> e # es)))"

section \<open>The environment\<close>

text \<open>
  What the program takes from its libraries and from the outside world is a parameter:
  the SHA-1 hex digest, the origin server, the HTML parser (the attributes of the first
  \<open>input\<close> element of a given name on the landing page; the cell texts of every table
  row of a result page), the formatting of a date and the clock. A date is its ordinal
  number, so that \<open>start_date + timedelta(days=i)\<close> is an addition. The \<open>[FOUND]\<close> lines
  that \<open>parse_events_from_html\<close> prints are left out.
\<close>

datatype request =
    Get string
  | Post string "(string \<times> string) list" "(string \<times> string) list"

record env =
  sha1_hex :: "string \<Rightarrow> string"
  http :: "nat \<Rightarrow> request \<Rightarrow> py_error + string"
  landing_inputs :: "string \<Rightarrow> py_error + (string \<Rightarrow> (string \<times> string) list option)"
  result_rows :: "string \<Rightarrow> py_error + string list list"
  date_mdY :: "int \<Rightarrow> string"
  utc_stamp :: string

definition parse_events_from_html :: "env \<Rightarrow> string \<Rightarrow> py_error + event list" where
  "parse_events_from_html E html_content = bind (result_rows E html_content) rows_events"

datatype message = Starting nat | ErrorOn int py_error | Success nat | Fail

datatype effect = Request request | Sleep rat | Print message | WriteText string

record world =
  asp_tokens :: "(string \<times> string) list option"
  out_file :: "string option"
  trace :: "effect list"

definition emit :: "effect \<Rightarrow> world \<Rightarrow> world" where
  "emit x w = w\<lparr>trace := trace w @ [x]\<rparr>"

fun is_request :: "effect \<Rightarrow> bool" where
  "is_request (Request _) = True"
| "is_request _ = False"

definition do_http :: "env \<Rightarrow> request \<Rightarrow> world \<Rightarrow> world \<times> (py_error + string)" where
  \<comment> \<open>one call of \<open>session.get\<close> or \<open>session.post\<close>: the body of the answer, or the
      exception raised; the server sees the number of the call\<close>
  "do_http E rq w = (emit (Request rq) w, http E (length (filter is_request (trace w))) rq)"

section \<open>fetch_events_for_day\<close>

fun dict_set :: "('k \<times> 'v) list \<Rightarrow> 'k \<Rightarrow> 'v \<Rightarrow> ('k \<times> 'v) list" where
  \<comment> \<open>\<open>d[k] = v\<close> on a dictionary in insertion order: a key already there keeps its place\<close>
  "dict_set [] k v = [(k, v)]"
| "dict_set ((k', v') # d) k v = (if k' = k then (k', v) # d else (k', v') # dict_set d k v)"

definition search_url :: string where
  "search_url = ''https://www.cga.ct.gov/webapps/cgaevents.asp''"

definition xhr_url :: string where
  "xhr_url = ''https://www.cga.ct.gov/webapps/in-events1x.asp''"

definition USER_AGENT :: string where
  "USER_AGENT = ''Mozilla/5.0 (Windows NT 10.0; Win64; x64) AppleWebKit/537.36 (KHTML, like Gecko) Chrome/120.0.0.0 Safari/537.36''"

definition token_fields :: "string list" where
  "token_fields = [''__VIEWSTATE'', ''__VIEWSTATEGENERATOR'', ''__EVENTVALIDATION'']"

definition extract_tokens :: "(string \<Rightarrow> (string \<times> string) list option) \<Rightarrow> (string \<times> string) list" where
  \<comment> \<open>lines 110-114: \<open>{f: soup.find("input", attrs={"name": f}).get("value", "")
      for f in [...] if soup.find("input", attrs={"name": f})}\<close>\<close>
  "extract_tokens soup_find =
     foldl (\<lambda>d f. case soup_find f of
                     None \<Rightarrow> d
                   | Some attrs \<Rightarrow> dict_set d f (case map_of attrs ''value'' of None \<Rightarrow> [] | Some v \<Rightarrow> v))
       [] token_fields"

definition capture_tokens :: "env \<Rightarrow> world \<Rightarrow> world \<times> (py_error + (string \<times> string) list)" where
  \<comment> \<open>lines 107-114: \<open>if not hasattr(session, 'asp_tokens'): ...\<close>, then the stored mapping\<close>
  "capture_tokens E w =
     (case asp_tokens w of
        Some t \<Rightarrow> (w, Inr t)
      | None \<Rightarrow>
          (case do_http E (Get search_url) w of
             (w1, Inl e) \<Rightarrow> (w1, Inl e)
           | (w1, Inr text) \<Rightarrow>
               (case landing_inputs E text of
                  Inl e \<Rightarrow> (w1, Inl e)
                | Inr soup_find \<Rightarrow>
                    (w1\<lparr>asp_tokens := Some (extract_tokens soup_find)\<rparr>,
                     Inr (extract_tokens soup_find)))))"

definition payload :: "string \<Rightarrow> (string \<times> string) list \<Rightarrow> (string \<times> string) list" where
  \<comment> \<open>lines 117-121: the form fields, then \<open>**session.asp_tokens\<close>\<close>
  "payload date_str tokens =
     foldl (\<lambda>d (k, v). dict_set d k v)
       [(''sDate'', date_str), (''eDate'', date_str), (''btnSubmit'', ''Search''), (''List'', ''1'')]
       tokens"

definition headers :: "(string \<times> string) list" where
  "headers = [(''User-Agent'', USER_AGENT), (''Referer'', search_url)]"

definition fetch_events_for_day :: "env \<Rightarrow> int \<Rightarrow> world \<Rightarrow> world \<times> (py_error + string)" where
  "fetch_events_for_day E target_date w =
     (case capture_tokens E w of
        (w1, Inl e) \<Rightarrow> (w1, Inl e)
      | (w1, Inr tokens) \<Rightarrow>
          (let date_str = date_mdY E target_date
           in do_http E (Post xhr_url headers (payload date_str tokens)) w1))"

section \<open>build_ics\<close>

definition TZID :: string where
  "TZID = ''America/New_York''"

definition CRLF :: string where
  "CRLF = [CHR 0x0D, CHR 0x0A]"

definition stamp :: "datetime \<Rightarrow> string" where
  \<comment> \<open>\<open>dt.strftime('%Y%m%dT%H%M%S')\<close>, with the year in four digits as the library
      documents it\<close>
  "stamp d =
     zpad 4 (year d) @ zpad 2 (month d) @ zpad 2 (day d) @ ''T'' @
     zpad 2 (hour d) @ zpad 2 (minute d) @ zpad 2 (second d)"

definition escape_commas :: "string \<Rightarrow> string" where
  \<comment> \<open>\<open>s.replace(',', r'\,')\<close>\<close>
  "escape_commas s = concat (map (\<lambda>c. if c = CHR '','' then [CHR 0x5C, CHR '',''] else [c]) s)"

fun join :: "string \<Rightarrow> string list \<Rightarrow> string" where
  \<comment> \<open>\<open>sep.join(lines)\<close>\<close>
  "join sep [] = []"
| "join sep [l] = l"
| "join sep (l # k # ls) = l @ sep @ join sep (k # ls)"

definition vevent_lines :: "string \<Rightarrow> (string \<Rightarrow> string) \<Rightarrow> event \<Rightarrow> string list" where
  \<comment> \<open>lines 131-139: the block of one event\<close>
  "vevent_lines now sha1 e =
     [''BEGIN:VEVENT'',
      ''UID:'' @ uid sha1 e,
      ''DTSTAMP:'' @ now,
      ''DTSTART;TZID='' @ TZID @ '':'' @ stamp (dt_start e),
      ''SUMMARY:'' @ escape_commas (title e),
      ''LOCATION:'' @ escape_commas (location e),
      ''END:VEVENT'']"

definition ics_lines :: "string \<Rightarrow> (string \<Rightarrow> string) \<Rightarrow> event list \<Rightarrow> string list" where
  \<comment> \<open>the list \<open>lines\<close> when the loop of \<open>build_ics\<close> is over, line 140\<close>
  "ics_lines now sha1 events =
     [''BEGIN:VCALENDAR'', ''VERSION:2.0'', ''PRODID:-//CGA//EN'', ''METHOD:PUBLISH'']
     @ concat (map (vevent_lines now sha1) events)
     @ [''END:VCALENDAR'']"

definition build_ics :: "string \<Rightarrow> (string \<Rightarrow> string) \<Rightarrow> event list \<Rightarrow> string" where
  \<comment> \<open>\<open>now\<close> is \<open>datetime.now(timezone.utc).strftime("%Y%m%dT%H%M%SZ")\<close>\<close>
  "build_ics now sha1 events = join CRLF (ics_lines now sha1 events) @ CRLF"

section \<open>main\<close>

definition dt_key :: "datetime \<Rightarrow> int \<times> int \<times> int \<times> int \<times> int \<times> int" where
  \<comment> \<open>the order of naive timestamps: field by field, the year first\<close>
  "dt_key d = (year d, month d, day d, hour d, minute d, second d)"

definition uid_dict :: "(string \<Rightarrow> string) \<Rightarrow> event list \<Rightarrow> (string \<times> event) list" where
  \<comment> \<open>line 163: \<open>{e.uid: e for e in all_events}\<close>\<close>
  "uid_dict sha1 all_events = foldl (\<lambda>d e. dict_set d (uid sha1 e) e) [] all_events"

definition final_events :: "(string \<Rightarrow> string) \<Rightarrow> event list \<Rightarrow> event list" where
  \<comment> \<open>line 163: \<open>sorted({...}.values(), key=lambda x: x.dt_start)\<close>, a stable sort\<close>
  "final_events sha1 all_events = sort_key (\<lambda>x. dt_key (dt_start x)) (map snd (uid_dict sha1 all_events))"

definition write_text :: "string \<Rightarrow> world \<Rightarrow> world" where
  \<comment> \<open>\<open>OUTPUT_ICS.write_text(text, "utf-8")\<close>\<close>
  "write_text text w = emit (WriteText text) (w\<lparr>out_file := Some text\<rparr>)"

definition days_to_pull :: nat where
  "days_to_pull = 14"

definition day_step :: "env \<Rightarrow> int \<Rightarrow> world \<times> event list \<Rightarrow> world \<times> event list" where
  \<comment> \<open>the body of the loop over days, lines 152-159, for the day \<open>current\<close>\<close>
  "day_step E current st =
     (case st of (w, all_events) \<Rightarrow>
        (case fetch_events_for_day E current w of
           (w1, Inl e) \<Rightarrow> (emit (Print (ErrorOn current e)) w1, all_events)
         | (w1, Inr html) \<Rightarrow>
             (case parse_events_from_html E html of
                Inl e \<Rightarrow> (emit (Print (ErrorOn current e)) w1, all_events)
              | Inr day_events \<Rightarrow> (emit (Sleep (1 / 2)) w1, all_events @ day_events))))"

definition day_loop :: "env \<Rightarrow> int \<Rightarrow> nat list \<Rightarrow> world \<times> event list \<Rightarrow> world \<times> event list" where
  \<comment> \<open>\<open>for i in ...: current = start_date + timedelta(days=i); ...\<close>\<close>
  "day_loop E start_date is st = foldl (\<lambda>s i. day_step E (start_date + int i) s) st is"

definition finish :: "env \<Rightarrow> world \<times> event list \<Rightarrow> world" where
  \<comment> \<open>lines 161-167\<close>
  "finish E st =
     (case st of (w, all_events) \<Rightarrow>
        if all_events \<noteq> [] then
          (let final = final_events (sha1_hex E) all_events
           in emit (Print (Success (length final)))
                (write_text (build_ics (utc_stamp E) (sha1_hex E) final) w))
        else emit (Print Fail) w)"

definition main :: "env \<Rightarrow> int \<Rightarrow> world \<Rightarrow> world" where
  \<comment> \<open>\<open>start_date\<close> is \<open>datetime.now().date()\<close>\<close>
  "main E start_date w =
     finish E (day_loop E start_date [0..<days_to_pull] (emit (Print (Starting days_to_pull)) w, []))"

definition fresh :: "string option \<Rightarrow> world" where
  \<comment> \<open>the state at the start of a run: no token mapping on the session, nothing done yet,
      the output file as the last run left it\<close>
  "fresh file = \<lparr>asp_tokens = None, out_file = file, trace = []\<rparr>"

section \<open>Notions of the specification\<close>

definition is_letter :: "char \<Rightarrow> bool" where
  "is_letter c = ((65 \<le> code c \<and> code c \<le> 90) \<or> (97 \<le> code c \<and> code c \<le> 122))"

definition same_letter :: "char \<Rightarrow> char \<Rightarrow> bool" where
  \<comment> \<open>the same character, or the same letter in the two cases\<close>
  "same_letter x y =
     (x = y \<or> (is_letter x \<and> is_letter y \<and> (code x = code y + 32 \<or> code y = code x + 32)))"

definition ci_equal :: "string \<Rightarrow> string \<Rightarrow> bool" where
  \<comment> \<open>case-insensitive equality of two titles, written without \<open>lower\<close>\<close>
  "ci_equal a b = list_all2 same_letter a b"

definition key_digest :: "string \<Rightarrow> string" where
  \<comment> \<open>a stand-in digest for the concrete runs below: the key itself\<close>
  "key_digest k = k"

fun is_sleep :: "effect \<Rightarrow> bool" where
  "is_sleep (Sleep _) = True"
| "is_sleep _ = False"

fun is_write :: "effect \<Rightarrow> bool" where
  "is_write (WriteText _) = True"
| "is_write _ = False"

fun is_get :: "effect \<Rightarrow> bool" where
  "is_get (Request (Get _)) = True"
| "is_get _ = False"

definition day_completes :: "env \<Rightarrow> int \<Rightarrow> world \<Rightarrow> bool" where
  \<comment> \<open>the fetch and the extraction of the day go through without raising\<close>
  "day_completes E current w =
     (case snd (fetch_events_for_day E current w) of
        Inl e \<Rightarrow> False
      | Inr html \<Rightarrow> (case parse_events_from_html E html of Inl e \<Rightarrow> False | Inr evs \<Rightarrow> True))"

definition server_down :: env where
  \<comment> \<open>a run in which every request fails\<close>
  "server_down =
     \<lparr>sha1_hex = key_digest, http = (\<lambda>n rq. Inl RequestException),
      landing_inputs = (\<lambda>text. Inr (\<lambda>f. None)), result_rows = (\<lambda>text. Inr []),
      date_mdY = (\<lambda>d. ''01/05/2025''), utc_stamp = ''20250105T120000Z''\<rparr>"

definition first_call_fails :: env where
  \<comment> \<open>a run in which the first request fails and every later one is answered: the landing
      page carries one of the three hidden fields, the result pages carry no rows\<close>
  "first_call_fails =
     \<lparr>sha1_hex = key_digest,
      http = (\<lambda>n rq. if n = 0 then Inl RequestException else Inr ''<html>''),
      landing_inputs = (\<lambda>text. Inr (\<lambda>f. if f = ''__VIEWSTATE'' then Some [(''value'', ''abc'')] else None)),
      result_rows = (\<lambda>text. Inr []),
      date_mdY = (\<lambda>d. ''01/05/2025''), utc_stamp = ''20250105T120000Z''\<rparr>"

fun is_error :: "effect \<Rightarrow> bool" where
  "is_error (Print (ErrorOn _ _)) = True"
| "is_error _ = False"

definition with_tokens :: world where
  \<comment> \<open>a state in the middle of a run: the landing page has been fetched, one field found\<close>
  "with_tokens =
     \<lparr>asp_tokens = Some [(''__VIEWSTATE'', ''abc'')], out_file = None,
      trace = [Request (Get search_url)]\<rparr>"

fun lines_from :: "string \<Rightarrow> string \<Rightarrow> string list option" where
  \<comment> \<open>reading a text line by line, each line ending with CR LF; the first argument is
      the line read so far, backwards\<close>
  "lines_from acc [] = (if acc = [] then Some [] else None)"
| "lines_from acc [c] = None"
| "lines_from acc (c # d # cs) =
     (if c = CHR 0x0D \<and> d = CHR 0x0A then map_option ((#) (rev acc)) (lines_from [] cs)
      else lines_from (c # acc) (d # cs))"

definition crlf_lines :: "string \<Rightarrow> string list option" where
  \<comment> \<open>the lines of a text whose lines all end with CR LF, the last one too; \<open>None\<close> for a
      text whose last line does not\<close>
  "crlf_lines text = lines_from [] text"

definition no_break :: "string \<Rightarrow> bool" where
  \<comment> \<open>a text without line feed\<close>
  "no_break s = (CHR 0x0A \<notin> set s)"

definition broken :: event where
  \<comment> \<open>an event whose title holds a line break\<close>
  "broken =
     \<lparr>dt_start = \<lparr>year = 2025, month = 1, day = 5, hour = 10, minute = 0, second = 0\<rparr>,
      title = ''Budget'' @ CRLF @ ''BEGIN:VEVENT'', location = ''Room 2C''\<rparr>"

definition fixed_digest :: "string \<Rightarrow> string" where
  \<comment> \<open>a stand-in digest of 40 hex digits for the concrete runs below\<close>
  "fixed_digest k = ''da39a3ee5e6b4b0d3255bfef95601890afd80709''"

definition ev :: "int \<Rightarrow> int \<Rightarrow> string \<Rightarrow> string \<Rightarrow> event" where
  \<comment> \<open>an event of January 2025, on the hour, for the concrete runs below\<close>
  "ev d h t l =
     \<lparr>dt_start = \<lparr>year = 2025, month = 1, day = d, hour = h, minute = 0, second = 0\<rparr>,
      title = t, location = l\<rparr>"

section \<open>Properties\<close>

subsection \<open>Characters and text\<close>

lemma char_of_code: "char_of (code c) = c"
  by (simp add: code_def)

lemma same_letter_lower: "same_letter x y \<Longrightarrow> lower_char x = lower_char y"
  unfolding same_letter_def is_letter_def lower_char_def
  by (auto simp: char_of_code) (metis char_of_code)+

lemma ci_equal_lower: "ci_equal a b \<Longrightarrow> lower a = lower b"
  unfolding ci_equal_def lower_def
  by (induction a b rule: list_all2_induct) (auto dest: same_letter_lower)

subsection \<open>Event identifiers\<close>

text \<open>
  C1. Two events with the same start time and titles that are equal up to the case of
  their letters have the same uid, whatever their locations are: the uid is computed from
  the start time and the lowercased title only.
\<close>

theorem uid_ignores_case_and_location:
  "dt_start e1 = dt_start e2 \<and> ci_equal (title e1) (title e2) \<longrightarrow> uid sha1 e1 = uid sha1 e2"
  by (auto simp: uid_def dest: ci_equal_lower)

theorem uid_ignores_case_and_location_witness:
  "ci_equal ''Budget Session'' ''budget SESSION'' \<and>
   uid key_digest
     \<lparr>dt_start = \<lparr>year = 2025, month = 1, day = 5, hour = 10, minute = 0, second = 0\<rparr>,
      title = ''Budget Session'', location = ''Senate Chamber''\<rparr> =
   uid key_digest
     \<lparr>dt_start = \<lparr>year = 2025, month = 1, day = 5, hour = 10, minute = 0, second = 0\<rparr>,
      title = ''budget SESSION'', location = ''Room 2C''\<rparr>"
proof -
  have ci: "ci_equal ''Budget Session'' ''budget SESSION''"
    by (simp add: ci_equal_def same_letter_def is_letter_def code_def)
  show ?thesis
    using ci uid_ignores_case_and_location
      [of "\<lparr>dt_start = \<lparr>year = 2025, month = 1, day = 5, hour = 10, minute = 0, second = 0\<rparr>,
            title = ''Budget Session'', location = ''Senate Chamber''\<rparr>"
          "\<lparr>dt_start = \<lparr>year = 2025, month = 1, day = 5, hour = 10, minute = 0, second = 0\<rparr>,
            title = ''budget SESSION'', location = ''Room 2C''\<rparr>" key_digest]
    by simp
qed

subsection \<open>Rows\<close>

text \<open>
  C6. When the first candidate of a row is shorter than three characters and there is a
  second candidate, the title is the second candidate and the location the third one, or
  empty when there is none. The correction is made once: the second candidate stays the
  title also when it is itself shorter than three characters. The title and the location
  of the event of a row are selected in this way from the candidates of the row.
\<close>

theorem short_title_correction:
  "(length c0 < 3 \<longrightarrow>
      select_title (c0 # c1 # rest) = (c1, case rest of [] \<Rightarrow> [] | c2 # _ \<Rightarrow> c2)) \<and>
   (parse_row cols = Inr (Some e) \<longrightarrow>
      (title e, location e) = select_title (potential_titles (drop 2 cols))) \<and>
   select_title [''HB'', ''SB'', ''Senate Chamber'', ''Room 1''] = (''SB'', ''Senate Chamber'') \<and>
   parse_row [''1/5/2025'', ''10:00 AM'', ''HB'', ''Budget Session'', ''Senate Chamber''] =
     Inr (Some \<lparr>dt_start = \<lparr>year = 2025, month = 1, day = 5, hour = 10, minute = 0, second = 0\<rparr>,
                title = ''Budget Session'', location = ''Senate Chamber''\<rparr>)"
proof -
  have a: "length c0 < 3 \<longrightarrow>
      select_title (c0 # c1 # rest) = (c1, case rest of [] \<Rightarrow> [] | c2 # _ \<Rightarrow> c2)"
    by (simp add: select_title_def split: list.splits)
  have b: "parse_row cols = Inr (Some e) \<longrightarrow>
      (title e, location e) = select_title (potential_titles (drop 2 cols))"
    by (auto simp: parse_row_def bind_def split: if_splits sum.splits option.splits prod.splits)
  have c: "select_title [''HB'', ''SB'', ''Senate Chamber'', ''Room 1''] = (''SB'', ''Senate Chamber'')"
    by (simp add: select_title_def)
  have d: "parse_row [''1/5/2025'', ''10:00 AM'', ''HB'', ''Budget Session'', ''Senate Chamber''] =
     Inr (Some \<lparr>dt_start = \<lparr>year = 2025, month = 1, day = 5, hour = 10, minute = 0, second = 0\<rparr>,
                title = ''Budget Session'', location = ''Senate Chamber''\<rparr>)"
    by code_simp
  from a b c d show ?thesis by blast
qed

theorem short_title_correction_witness:
  "length ''HB'' < 3 \<and>
   select_title [''HB'', ''Budget Session'', ''Senate Chamber''] = (''Budget Session'', ''Senate Chamber'') \<and>
   select_title [''HB'', ''SB''] = (''SB'', [])"
  using short_title_correction [of "''HB''" "''Budget Session''" "[''Senate Chamber'']"]
    short_title_correction [of "''HB''" "''SB''" "[]"]
  by simp

subsection \<open>Date and time fragments\<close>

text \<open>
  C10. Whenever parse_dt_line returns a timestamp, its seconds are 0. This is so also
  when the text carries seconds: in "1/5/2025 10:00:45 AM" the optional group matches
  "45", and the timestamp returned is 10:00:00.
\<close>

theorem parse_dt_line_seconds_zero:
  "(parse_dt_line date_str time_str = Inr (Some dt) \<longrightarrow> second dt = 0) \<and>
   map_option (\<lambda>m. group m ''s'')
     (re_search dt_pattern (normalize_ws (''1/5/2025'' @ '' '' @ ''10:00:45 AM''))) = Some (Some ''45'') \<and>
   parse_dt_line ''1/5/2025'' ''10:00:45 AM'' =
     Inr (Some \<lparr>year = 2025, month = 1, day = 5, hour = 10, minute = 0, second = 0\<rparr>)"
proof -
  have a: "parse_dt_line date_str time_str = Inr (Some dt) \<longrightarrow> second dt = 0"
    by (auto simp: parse_dt_line_def parse_dt_body_def bind_def mk_datetime_def Let_def
        split: sum.splits option.splits if_splits)
  have b: "map_option (\<lambda>m. group m ''s'')
     (re_search dt_pattern (normalize_ws (''1/5/2025'' @ '' '' @ ''10:00:45 AM''))) = Some (Some ''45'')"
    by code_simp
  have c: "parse_dt_line ''1/5/2025'' ''10:00:45 AM'' =
     Inr (Some \<lparr>year = 2025, month = 1, day = 5, hour = 10, minute = 0, second = 0\<rparr>)"
    by code_simp
  from a b c show ?thesis by blast
qed

theorem parse_dt_line_seconds_zero_witness:
  "parse_dt_line ''1/5/2025'' ''11:59:59 PM'' =
     Inr (Some \<lparr>year = 2025, month = 1, day = 5, hour = 23, minute = 59, second = 0\<rparr>) \<and>
   second \<lparr>year = 2025, month = 1, day = 5, hour = 23, minute = 59, second = 0\<rparr> = 0"
proof -
  have p: "parse_dt_line ''1/5/2025'' ''11:59:59 PM'' =
     Inr (Some \<lparr>year = 2025, month = 1, day = 5, hour = 23, minute = 59, second = 0\<rparr>)"
    by code_simp
  show ?thesis
    using p parse_dt_line_seconds_zero [of "''1/5/2025''" "''11:59:59 PM''"
        "\<lparr>year = 2025, month = 1, day = 5, hour = 23, minute = 59, second = 0\<rparr>"]
    by simp
qed

subsection \<open>The matcher\<close>

lemma re_search_match:
  "re_search r s = Some m \<Longrightarrow> \<exists>s' t. (t, m) \<in> set (rmatch r (s', []))"
proof (induction r s rule: re_search.induct)
  case (1 r s)
  show ?case
  proof (cases "rmatch r (s, [])")
    case Nil
    from "1.prems" Nil have "(case s of [] \<Rightarrow> None | _ # t \<Rightarrow> re_search r t) = Some m"
      by (subst (asm) re_search.simps) simp
    then obtain c t where s: "s = c # t" and "re_search r t = Some m"
      by (cases s) auto
    with "1.IH" Nil show ?thesis by blast
  next
    case (Cons p ps)
    with "1.prems" have "p = (fst p, m)" by (cases p) (auto simp add: re_search.simps [of r s])
    with Cons show ?thesis by (metis list.set_intros(1))
  qed
qed

lemma code_char_of: "n < 256 \<Longrightarrow> code (char_of n) = n"
  by (simp add: code_def)

lemma lower_char_eq:
  assumes "lower_char x = lower_char c" and "65 \<le> code c" and "code c \<le> 90"
  shows "upper_char x = c"
proof -
  have lc: "lower_char c = char_of (code c + 32)"
    using assms by (simp add: lower_char_def)
  have clc: "code (lower_char c) = code c + 32"
    unfolding lc using assms by (simp add: code_char_of)
  show ?thesis
  proof (cases "65 \<le> code x \<and> code x \<le> 90")
    case True
    then have "code (lower_char x) = code x + 32"
      by (simp add: lower_char_def code_char_of)
    with clc assms(1) have "code x = code c" by simp
    then have "x = c" by (metis char_of_code)
    with True show ?thesis by (simp add: upper_char_def)
  next
    case False
    have "lower_char x = x" unfolding lower_char_def by (rule if_not_P [OF False])
    with assms(1) clc have cx: "code x = code c + 32" by simp
    with assms(2,3) have "upper_char x = char_of (code c)" by (simp add: upper_char_def)
    then show ?thesis by (simp add: char_of_code)
  qed
qed

lemma lower_eq_A: "lower_char x = lower_char CHR ''A'' \<Longrightarrow> upper_char x = CHR ''A''"
  by (rule lower_char_eq) (simp_all add: code_def)
lemma lower_eq_M: "lower_char x = lower_char CHR ''M'' \<Longrightarrow> upper_char x = CHR ''M''"
  by (rule lower_char_eq) (simp_all add: code_def)
lemma lower_eq_P: "lower_char x = lower_char CHR ''P'' \<Longrightarrow> upper_char x = CHR ''P''"
  by (rule lower_char_eq) (simp_all add: code_def)

lemma rmatch_Seq_last:
  "(t, m) \<in> set (rmatch (Seq a b) st) \<Longrightarrow> \<exists>st'. (t, m) \<in> set (rmatch b st')"
  by auto

lemma rmatch_Lit:
  "(t, m) \<in> set (rmatch (Lit c) (s, g)) \<Longrightarrow> \<exists>x. s = x # t \<and> m = g \<and> lower_char x = lower_char c"
  by (auto split: list.splits if_splits)

lemma rmatch_Lit2:
  assumes "(t, m) \<in> set (rmatch (Seq (Lit c) (Lit d)) (s, g))"
  shows "\<exists>x y. s = x # y # t \<and> m = g \<and> lower_char x = lower_char c \<and> lower_char y = lower_char d"
proof -
  from assms obtain st where a: "st \<in> set (rmatch (Lit c) (s, g))" and b: "(t, m) \<in> set (rmatch (Lit d) st)"
    by auto
  from a obtain x where "s = x # fst st" "snd st = g" "lower_char x = lower_char c"
    using rmatch_Lit [of "fst st" "snd st" c s g] by auto
  moreover from b obtain y where "fst st = y # t" "m = snd st" "lower_char y = lower_char d"
    using rmatch_Lit [of t m d "fst st" "snd st"] by auto
  ultimately show ?thesis by auto
qed

lemma rmatch_ampm:
  assumes "(t, m) \<in> set (rmatch (Grp ''ampm'' (Alt (Seq (Lit CHR ''A'') (Lit CHR ''M''))
                            (Seq (Lit CHR ''P'') (Lit CHR ''M'')))) (s, g))"
  shows "\<exists>a. m = (''ampm'', a) # g \<and> (upper a = ''AM'' \<or> upper a = ''PM'')"
proof -
  from assms obtain g' where m: "m = (''ampm'', take (length s - length t) s) # g'"
    and "(t, g') \<in> set (rmatch (Seq (Lit CHR ''A'') (Lit CHR ''M'')) (s, g)) \<or>
         (t, g') \<in> set (rmatch (Seq (Lit CHR ''P'') (Lit CHR ''M'')) (s, g))"
    by auto
  then obtain x y where s: "s = x # y # t" and g: "g' = g"
    and xy: "(lower_char x = lower_char CHR ''A'' \<or> lower_char x = lower_char CHR ''P'') \<and>
             lower_char y = lower_char CHR ''M''"
    using rmatch_Lit2 [of t g' _ _ s g] by blast
  from xy have "upper [x, y] = ''AM'' \<or> upper [x, y] = ''PM''"
    by (auto simp: upper_def dest: lower_eq_A lower_eq_M lower_eq_P)
  with m s g show ?thesis by simp
qed

lemma dt_pattern_ampm:
  assumes "(t, m) \<in> set (rmatch dt_pattern st)"
  shows "\<exists>a. group m ''ampm'' = Some a \<and> (upper a = ''AM'' \<or> upper a = ''PM'')"
proof -
  from assms obtain st' where
    "(t, m) \<in> set (rmatch (Grp ''ampm'' (Alt (Seq (Lit CHR ''A'') (Lit CHR ''M''))
                            (Seq (Lit CHR ''P'') (Lit CHR ''M'')))) st')"
    unfolding dt_pattern_def
    by (blast dest!: rmatch_Seq_last)
  then show ?thesis
    using rmatch_ampm [of t m "fst st'" "snd st'"] by (auto simp: group_def)
qed

lemma re_search_ampm:
  "re_search dt_pattern s = Some m \<Longrightarrow> \<exists>a. group m ''ampm'' = Some a \<and> (upper a = ''AM'' \<or> upper a = ''PM'')"
  using re_search_match dt_pattern_ampm by blast

subsection \<open>The conversion to 24 hours\<close>

text \<open>
  C4. Whenever parse_dt_line returns a timestamp, the pattern has matched, the marker
  read in upper case is PM or AM, and the hour of the timestamp comes from the hour
  \<open>h\<close> of the text as follows: 12 for 12 PM, \<open>h + 12\<close> for another hour with PM, 0 for
  12 AM, \<open>h\<close> for another hour with AM. The hour of the timestamp lies between 0 and 23.
  On the boundary: 12:00 AM gives 0, 12:30 PM gives 12, 1:15 PM gives 13, 11:59 PM
  gives 23.
\<close>

theorem parse_dt_line_hour24:
  "(parse_dt_line date_str time_str = Inr (Some dt) \<longrightarrow>
      (\<exists>m h ampm.
         re_search dt_pattern (normalize_ws (date_str @ '' '' @ time_str)) = Some m \<and>
         py_int (group m ''h'') = Inr h \<and> str_upper (group m ''ampm'') = Inr ampm \<and>
         (ampm = ''PM'' \<or> ampm = ''AM'') \<and>
         (ampm = ''PM'' \<and> h = 12 \<longrightarrow> hour dt = 12) \<and>
         (ampm = ''PM'' \<and> h \<noteq> 12 \<longrightarrow> hour dt = h + 12) \<and>
         (ampm = ''AM'' \<and> h = 12 \<longrightarrow> hour dt = 0) \<and>
         (ampm = ''AM'' \<and> h \<noteq> 12 \<longrightarrow> hour dt = h) \<and>
         0 \<le> hour dt \<and> hour dt \<le> 23)) \<and>
   parse_dt_line ''1/5/2025'' ''12:00 AM'' =
     Inr (Some \<lparr>year = 2025, month = 1, day = 5, hour = 0, minute = 0, second = 0\<rparr>) \<and>
   parse_dt_line ''1/5/2025'' ''12:30 PM'' =
     Inr (Some \<lparr>year = 2025, month = 1, day = 5, hour = 12, minute = 30, second = 0\<rparr>) \<and>
   parse_dt_line ''1/5/2025'' ''1:15 PM'' =
     Inr (Some \<lparr>year = 2025, month = 1, day = 5, hour = 13, minute = 15, second = 0\<rparr>) \<and>
   parse_dt_line ''1/5/2025'' ''11:59 PM'' =
     Inr (Some \<lparr>year = 2025, month = 1, day = 5, hour = 23, minute = 59, second = 0\<rparr>)"
proof -
  have gen: "\<exists>m h ampm.
         re_search dt_pattern (normalize_ws (date_str @ '' '' @ time_str)) = Some m \<and>
         py_int (group m ''h'') = Inr h \<and> str_upper (group m ''ampm'') = Inr ampm \<and>
         (ampm = ''PM'' \<or> ampm = ''AM'') \<and>
         (ampm = ''PM'' \<and> h = 12 \<longrightarrow> hour dt = 12) \<and>
         (ampm = ''PM'' \<and> h \<noteq> 12 \<longrightarrow> hour dt = h + 12) \<and>
         (ampm = ''AM'' \<and> h = 12 \<longrightarrow> hour dt = 0) \<and>
         (ampm = ''AM'' \<and> h \<noteq> 12 \<longrightarrow> hour dt = h) \<and>
         0 \<le> hour dt \<and> hour dt \<le> 23"
    if ok: "parse_dt_line date_str time_str = Inr (Some dt)"
  proof -
    from ok obtain m h ampm y mo d mi where
      m: "re_search dt_pattern (normalize_ws (date_str @ '' '' @ time_str)) = Some m"
      and h: "py_int (group m ''h'') = Inr h"
      and ap: "str_upper (group m ''ampm'') = Inr ampm"
      and dt: "mk_datetime y mo d (hour24 h ampm) mi = Inr dt"
      by (auto simp: parse_dt_line_def parse_dt_body_def bind_def Let_def
          split: sum.splits option.splits)
    from re_search_ampm [OF m] ap have ampm: "ampm = ''PM'' \<or> ampm = ''AM''"
      by (auto simp: str_upper_def)
    from dt have hr: "hour dt = hour24 h ampm" and rng: "0 \<le> hour dt \<and> hour dt \<le> 23"
      by (auto simp: mk_datetime_def valid_fields_def split: if_splits)
    from hr have "(ampm = ''PM'' \<and> h = 12 \<longrightarrow> hour dt = 12) \<and>
         (ampm = ''PM'' \<and> h \<noteq> 12 \<longrightarrow> hour dt = h + 12) \<and>
         (ampm = ''AM'' \<and> h = 12 \<longrightarrow> hour dt = 0) \<and>
         (ampm = ''AM'' \<and> h \<noteq> 12 \<longrightarrow> hour dt = h)"
      by (simp add: hour24_def)
    with m h ap ampm rng show ?thesis by blast
  qed
  have a: "parse_dt_line ''1/5/2025'' ''12:00 AM'' =
     Inr (Some \<lparr>year = 2025, month = 1, day = 5, hour = 0, minute = 0, second = 0\<rparr>)"
    by code_simp
  have b: "parse_dt_line ''1/5/2025'' ''12:30 PM'' =
     Inr (Some \<lparr>year = 2025, month = 1, day = 5, hour = 12, minute = 30, second = 0\<rparr>)"
    by code_simp
  have c: "parse_dt_line ''1/5/2025'' ''1:15 PM'' =
     Inr (Some \<lparr>year = 2025, month = 1, day = 5, hour = 13, minute = 15, second = 0\<rparr>)"
    by code_simp
  have d: "parse_dt_line ''1/5/2025'' ''11:59 PM'' =
     Inr (Some \<lparr>year = 2025, month = 1, day = 5, hour = 23, minute = 59, second = 0\<rparr>)"
    by code_simp
  from gen a b c d show ?thesis by blast
qed

theorem parse_dt_line_hour24_witness:
  "parse_dt_line ''3/9/2026'' ''1:15 pm'' =
     Inr (Some \<lparr>year = 2026, month = 3, day = 9, hour = 13, minute = 15, second = 0\<rparr>) \<and>
   (\<exists>m. re_search dt_pattern (normalize_ws (''3/9/2026'' @ '' '' @ ''1:15 pm'')) = Some m \<and>
        py_int (group m ''h'') = Inr 1 \<and> str_upper (group m ''ampm'') = Inr ''PM'') \<and>
   hour \<lparr>year = 2026, month = 3, day = 9, hour = 13, minute = 15, second = 0\<rparr> = 1 + 12"
proof -
  have p: "parse_dt_line ''3/9/2026'' ''1:15 pm'' =
     Inr (Some \<lparr>year = 2026, month = 3, day = 9, hour = 13, minute = 15, second = 0\<rparr>)"
    by code_simp
  have s: "re_search dt_pattern (normalize_ws (''3/9/2026'' @ '' '' @ ''1:15 pm'')) =
      Some [(''ampm'', ''pm''), (''m'', ''15''), (''h'', ''1''), (''year'', ''2026''),
            (''day'', ''9''), (''mon'', ''3'')]"
    by code_simp
  have h: "py_int (group [(''ampm'', ''pm''), (''m'', ''15''), (''h'', ''1''), (''year'', ''2026''),
            (''day'', ''9''), (''mon'', ''3'')] ''h'') = Inr 1"
    by code_simp
  have u: "str_upper (group [(''ampm'', ''pm''), (''m'', ''15''), (''h'', ''1''), (''year'', ''2026''),
            (''day'', ''9''), (''mon'', ''3'')] ''ampm'') = Inr ''PM''"
    by code_simp
  from p parse_dt_line_hour24 [of "''3/9/2026''" "''1:15 pm''"
      "\<lparr>year = 2026, month = 3, day = 9, hour = 13, minute = 15, second = 0\<rparr>"]
  obtain m h ampm where
    "re_search dt_pattern (normalize_ws (''3/9/2026'' @ '' '' @ ''1:15 pm'')) = Some m"
    "py_int (group m ''h'') = Inr h" "str_upper (group m ''ampm'') = Inr ampm"
    "ampm = ''PM'' \<and> h \<noteq> 12 \<longrightarrow>
       hour \<lparr>year = 2026, month = 3, day = 9, hour = 13, minute = 15, second = 0\<rparr> = h + 12"
    by blast
  with s h u have "hour \<lparr>year = 2026, month = 3, day = 9, hour = 13, minute = 15, second = 0\<rparr> = 1 + 12"
    by simp
  with p s h u show ?thesis by simp
qed

subsection \<open>Failure of parse_dt_line\<close>

text \<open>
  C3. parse_dt_line never raises: for every pair of fragments it returns a timestamp or
  None. It returns None when the pattern does not match. It returns None as well when the
  pattern matches and the numbers are out of range for a timestamp: the constructor then
  raises ValueError inside the body, and the handler turns it into None, so that the
  caller cannot tell the two cases apart. A timestamp that is returned has fields in
  range. Examples: month 13 and day 45 with hour 25, day 32, month 13, and a header row.
\<close>

theorem parse_dt_line_never_raises:
  "(\<exists>r. parse_dt_line date_str time_str = Inr r) \<and>
   (re_search dt_pattern (normalize_ws (date_str @ '' '' @ time_str)) = None \<longrightarrow>
      parse_dt_line date_str time_str = Inr None) \<and>
   (\<forall>m y mo d h mi ampm.
      re_search dt_pattern (normalize_ws (date_str @ '' '' @ time_str)) = Some m \<and>
      py_int (group m ''h'') = Inr h \<and> str_upper (group m ''ampm'') = Inr ampm \<and>
      py_int (group m ''year'') = Inr y \<and> py_int (group m ''mon'') = Inr mo \<and>
      py_int (group m ''day'') = Inr d \<and> py_int (group m ''m'') = Inr mi \<and>
      \<not> valid_fields y mo d (hour24 h ampm) mi \<longrightarrow>
      parse_dt_body date_str time_str = Inl ValueError \<and>
      parse_dt_line date_str time_str = Inr None) \<and>
   (parse_dt_line date_str time_str = Inr (Some dt) \<longrightarrow>
      valid_fields (year dt) (month dt) (day dt) (hour dt) (minute dt)) \<and>
   parse_dt_line ''13/45/2024'' ''25:00 AM'' = Inr None \<and>
   parse_dt_line ''1/32/2025'' ''10:00 AM'' = Inr None \<and>
   parse_dt_line ''13/1/2025'' ''10:00 AM'' = Inr None \<and>
   parse_dt_line ''Date'' ''Time'' = Inr None"
proof -
  have a: "\<exists>r. parse_dt_line date_str time_str = Inr r"
    by (simp add: parse_dt_line_def split: sum.splits)
  have b: "re_search dt_pattern (normalize_ws (date_str @ '' '' @ time_str)) = None \<longrightarrow>
      parse_dt_line date_str time_str = Inr None"
    by (simp add: parse_dt_line_def parse_dt_body_def)
  have c: "\<forall>m y mo d h mi ampm.
      re_search dt_pattern (normalize_ws (date_str @ '' '' @ time_str)) = Some m \<and>
      py_int (group m ''h'') = Inr h \<and> str_upper (group m ''ampm'') = Inr ampm \<and>
      py_int (group m ''year'') = Inr y \<and> py_int (group m ''mon'') = Inr mo \<and>
      py_int (group m ''day'') = Inr d \<and> py_int (group m ''m'') = Inr mi \<and>
      \<not> valid_fields y mo d (hour24 h ampm) mi \<longrightarrow>
      parse_dt_body date_str time_str = Inl ValueError \<and>
      parse_dt_line date_str time_str = Inr None"
    by (simp add: parse_dt_line_def parse_dt_body_def bind_def mk_datetime_def)
  have d: "parse_dt_line date_str time_str = Inr (Some dt) \<longrightarrow>
      valid_fields (year dt) (month dt) (day dt) (hour dt) (minute dt)"
    by (auto simp: parse_dt_line_def parse_dt_body_def bind_def mk_datetime_def Let_def
        split: sum.splits option.splits if_splits)
  have e: "parse_dt_line ''13/45/2024'' ''25:00 AM'' = Inr None"
    by code_simp
  have f: "parse_dt_line ''1/32/2025'' ''10:00 AM'' = Inr None"
    by code_simp
  have g: "parse_dt_line ''13/1/2025'' ''10:00 AM'' = Inr None"
    by code_simp
  have h: "parse_dt_line ''Date'' ''Time'' = Inr None"
    by code_simp
  from a b c d e f g h show ?thesis by blast
qed

theorem parse_dt_line_never_raises_witness:
  "re_search dt_pattern (normalize_ws (''2/30/2024'' @ '' '' @ ''9:05 AM'')) =
     Some [(''ampm'', ''AM''), (''m'', ''05''), (''h'', ''9''), (''year'', ''2024''),
           (''day'', ''30''), (''mon'', ''2'')] \<and>
   \<not> valid_fields 2024 2 30 (hour24 9 ''AM'') 5 \<and>
   parse_dt_body ''2/30/2024'' ''9:05 AM'' = Inl ValueError \<and>
   parse_dt_line ''2/30/2024'' ''9:05 AM'' = Inr None"
proof -
  let ?m = "[(''ampm'', ''AM''), (''m'', ''05''), (''h'', ''9''), (''year'', ''2024''),
           (''day'', ''30''), (''mon'', ''2'')]"
  have s: "re_search dt_pattern (normalize_ws (''2/30/2024'' @ '' '' @ ''9:05 AM'')) = Some ?m"
    by code_simp
  have g: "py_int (group ?m ''h'') = Inr 9 \<and> str_upper (group ?m ''ampm'') = Inr ''AM'' \<and>
      py_int (group ?m ''year'') = Inr 2024 \<and> py_int (group ?m ''mon'') = Inr 2 \<and>
      py_int (group ?m ''day'') = Inr 30 \<and> py_int (group ?m ''m'') = Inr 5"
    by code_simp
  have v: "\<not> valid_fields 2024 2 30 (hour24 9 ''AM'') 5"
    by code_simp
  from s g v parse_dt_line_never_raises [of "''2/30/2024''" "''9:05 AM''"]
  have "parse_dt_body ''2/30/2024'' ''9:05 AM'' = Inl ValueError \<and>
      parse_dt_line ''2/30/2024'' ''9:05 AM'' = Inr None"
    by blast
  with s v show ?thesis by blast
qed

subsection \<open>Deduplication and order\<close>

lemma dict_set_keys_old: "k \<in> fst ` set d \<Longrightarrow> map fst (dict_set d k v) = map fst d"
  by (induction d) force+

lemma dict_set_keys_new: "k \<notin> fst ` set d \<Longrightarrow> map fst (dict_set d k v) = map fst d @ [k]"
  by (induction d) auto

lemma dict_set_key_set: "fst ` set (dict_set d k v) = insert k (fst ` set d)"
proof -
  have "set (map fst (dict_set d k v)) = insert k (set (map fst d))"
    by (cases "k \<in> fst ` set d") (auto simp: dict_set_keys_old dict_set_keys_new)
  then show ?thesis by simp
qed

lemma dict_set_distinct: "distinct (map fst d) \<Longrightarrow> distinct (map fst (dict_set d k v))"
  by (cases "k \<in> fst ` set d") (simp_all add: dict_set_keys_old dict_set_keys_new)

lemma dict_set_lookup: "map_of (dict_set d k v) = (map_of d)(k \<mapsto> v)"
  by (induction d) auto

lemma fold_dict_keys:
  "fst ` set (foldl (\<lambda>d e. dict_set d (f e) e) d0 es) = fst ` set d0 \<union> f ` set es"
proof (induction es arbitrary: d0)
  case Nil
  show ?case by simp
next
  case (Cons e es)
  have "fst ` set (foldl (\<lambda>d e. dict_set d (f e) e) d0 (e # es)) =
        fst ` set (dict_set d0 (f e) e) \<union> f ` set es"
    by (simp add: Cons.IH)
  also have "\<dots> = fst ` set d0 \<union> f ` set (e # es)"
    by (simp add: dict_set_key_set)
  finally show ?case .
qed

lemma fold_dict_distinct:
  "distinct (map fst d0) \<Longrightarrow> distinct (map fst (foldl (\<lambda>d e. dict_set d (f e) e) d0 es))"
  by (induction es arbitrary: d0) (simp_all add: dict_set_distinct)

lemma fold_dict_lookup:
  "map_of (foldl (\<lambda>d e. dict_set d (f e) e) d0 es) k =
     (if filter (\<lambda>x. f x = k) es = [] then map_of d0 k else Some (last (filter (\<lambda>x. f x = k) es)))"
proof (induction es arbitrary: d0)
  case Nil
  show ?case by simp
next
  case (Cons e es)
  show ?case
    by (simp add: Cons.IH dict_set_lookup)
qed

lemma uid_dict_distinct: "distinct (map fst (uid_dict sha1 es))"
  unfolding uid_dict_def by (rule fold_dict_distinct) simp

lemma uid_dict_entry:
  assumes "(k, e) \<in> set (uid_dict sha1 es)"
  shows "uid sha1 e = k \<and> e = last (filter (\<lambda>x. uid sha1 x = k) es)"
proof -
  let ?same = "filter (\<lambda>x. uid sha1 x = k) es"
  from assms uid_dict_distinct have "map_of (uid_dict sha1 es) k = Some e"
    by simp
  moreover have "map_of (uid_dict sha1 es) k =
      (if ?same = [] then map_of [] k else Some (last ?same))"
    unfolding uid_dict_def by (rule fold_dict_lookup)
  ultimately have ne: "?same \<noteq> []" and e: "e = last ?same"
    by (auto split: if_splits)
  from ne have "last ?same \<in> set ?same"
    by (rule last_in_set)
  with e show ?thesis by simp
qed

lemma uid_dict_values_keys: "map (uid sha1) (map snd (uid_dict sha1 es)) = map fst (uid_dict sha1 es)"
  using uid_dict_entry [of _ _ sha1 es] by (auto simp: map_eq_conv)

lemma distinct_map_sort_key:
  "distinct (map g (sort_key f xs)) = distinct (map g xs)"
  by (simp add: distinct_map)

text \<open>
  C2. The final list holds exactly one event for every uid of the accumulated list: its
  uids are pairwise distinct and are the uids of the accumulated list. The event kept for
  a uid is the last event of the accumulated list with this uid. The final list is in
  ascending order of start time.
\<close>

theorem final_events_dedup_sorted:
  "distinct (map (uid sha1) (final_events sha1 all_events)) \<and>
   set (map (uid sha1) (final_events sha1 all_events)) = set (map (uid sha1) all_events) \<and>
   (\<forall>e \<in> set (final_events sha1 all_events).
      e = last (filter (\<lambda>x. uid sha1 x = uid sha1 e) all_events)) \<and>
   sorted (map (\<lambda>x. dt_key (dt_start x)) (final_events sha1 all_events))"
proof -
  let ?vals = "map snd (uid_dict sha1 all_events)"
  have keys: "map (uid sha1) ?vals = map fst (uid_dict sha1 all_events)"
    by (rule uid_dict_values_keys)
  from uid_dict_distinct [of sha1 all_events]
  have a: "distinct (map (uid sha1) (final_events sha1 all_events))"
    unfolding final_events_def distinct_map_sort_key keys .
  have "set (map (uid sha1) (final_events sha1 all_events)) = set (map (uid sha1) ?vals)"
    by (simp only: final_events_def set_map set_sort)
  also have "\<dots> = set (map fst (uid_dict sha1 all_events))"
    by (simp only: keys)
  also have "\<dots> = set (map (uid sha1) all_events)"
    unfolding uid_dict_def set_map fold_dict_keys by simp
  finally have b: "set (map (uid sha1) (final_events sha1 all_events)) = set (map (uid sha1) all_events)" .
  have c: "\<forall>e \<in> set (final_events sha1 all_events).
      e = last (filter (\<lambda>x. uid sha1 x = uid sha1 e) all_events)"
  proof
    fix e assume "e \<in> set (final_events sha1 all_events)"
    then obtain k where "(k, e) \<in> set (uid_dict sha1 all_events)"
      by (auto simp: final_events_def)
    from uid_dict_entry [OF this] have u: "uid sha1 e = k"
      and l: "e = last (filter (\<lambda>x. uid sha1 x = k) all_events)"
      by blast+
    show "e = last (filter (\<lambda>x. uid sha1 x = uid sha1 e) all_events)"
      unfolding u by (rule l)
  qed
  have d: "sorted (map (\<lambda>x. dt_key (dt_start x)) (final_events sha1 all_events))"
    by (simp add: final_events_def)
  from a b c d show ?thesis by blast
qed

lemma final_events_example: "final_events key_digest [ev 6 10 ''Budget'' ''Room 1'', ev 5 9 ''Energy'' ''Room 2'', ev 6 10 ''BUDGET'' ''Room 3''] = [ev 5 9 ''Energy'' ''Room 2'', ev 6 10 ''BUDGET'' ''Room 3'']"
  by code_simp

theorem final_events_dedup_sorted_witness:
  "final_events key_digest [ev 6 10 ''Budget'' ''Room 1'', ev 5 9 ''Energy'' ''Room 2'', ev 6 10 ''BUDGET'' ''Room 3''] =
     [ev 5 9 ''Energy'' ''Room 2'', ev 6 10 ''BUDGET'' ''Room 3''] \<and>
   uid key_digest (ev 6 10 ''Budget'' ''Room 1'') = uid key_digest (ev 6 10 ''BUDGET'' ''Room 3'') \<and>
   ev 6 10 ''BUDGET'' ''Room 3'' =
     last (filter (\<lambda>x. uid key_digest x = uid key_digest (ev 6 10 ''BUDGET'' ''Room 3''))
       [ev 6 10 ''Budget'' ''Room 1'', ev 5 9 ''Energy'' ''Room 2'', ev 6 10 ''BUDGET'' ''Room 3'']) \<and>
   distinct (map (uid key_digest) [ev 5 9 ''Energy'' ''Room 2'', ev 6 10 ''BUDGET'' ''Room 3'']) \<and>
   sorted (map (\<lambda>x. dt_key (dt_start x)) [ev 5 9 ''Energy'' ''Room 2'', ev 6 10 ''BUDGET'' ''Room 3''])"
proof -
  let ?all = "[ev 6 10 ''Budget'' ''Room 1'', ev 5 9 ''Energy'' ''Room 2'', ev 6 10 ''BUDGET'' ''Room 3'']"
  have u: "uid key_digest (ev 6 10 ''Budget'' ''Room 1'') = uid key_digest (ev 6 10 ''BUDGET'' ''Room 3'')"
    by code_simp
  from final_events_dedup_sorted [of key_digest ?all]
  have "distinct (map (uid key_digest) [ev 5 9 ''Energy'' ''Room 2'', ev 6 10 ''BUDGET'' ''Room 3'']) \<and>
     (\<forall>e \<in> set [ev 5 9 ''Energy'' ''Room 2'', ev 6 10 ''BUDGET'' ''Room 3''].
        e = last (filter (\<lambda>x. uid key_digest x = uid key_digest e) ?all)) \<and>
     sorted (map (\<lambda>x. dt_key (dt_start x)) [ev 5 9 ''Energy'' ''Room 2'', ev 6 10 ''BUDGET'' ''Room 3''])"
    unfolding final_events_example by blast
  with final_events_example u show ?thesis by simp
qed

subsection \<open>Effects of a run\<close>

lemma emit_fields [simp]:
  "asp_tokens (emit x w) = asp_tokens w" "out_file (emit x w) = out_file w"
  "trace (emit x w) = trace w @ [x]"
  by (simp_all add: emit_def)

lemma do_http_world [simp]: "fst (do_http E rq w) = emit (Request rq) w"
  by (simp add: do_http_def)

lemma capture_tokens_stored:
  "asp_tokens w = Some t \<Longrightarrow> capture_tokens E w = (w, Inr t)"
  by (simp add: capture_tokens_def)

lemma capture_tokens_absent:
  assumes "asp_tokens w = None"
  shows "capture_tokens E w =
     (case http E (length (filter is_request (trace w))) (Get search_url) of
        Inl e \<Rightarrow> (emit (Request (Get search_url)) w, Inl e)
      | Inr text \<Rightarrow>
          (case landing_inputs E text of
             Inl e \<Rightarrow> (emit (Request (Get search_url)) w, Inl e)
           | Inr soup_find \<Rightarrow>
               ((emit (Request (Get search_url)) w)\<lparr>asp_tokens := Some (extract_tokens soup_find)\<rparr>,
                Inr (extract_tokens soup_find))))"
  using assms by (simp add: capture_tokens_def do_http_def split: sum.splits)

lemma capture_tokens_effects:
  "out_file (fst (capture_tokens E w)) = out_file w \<and>
   (\<exists>rs. trace (fst (capture_tokens E w)) = trace w @ rs \<and> list_all is_request rs)"
proof (cases "asp_tokens w")
  case None
  show ?thesis
    unfolding capture_tokens_absent [OF None]
    by (auto split: sum.splits)
next
  case (Some t)
  then show ?thesis by (simp add: capture_tokens_stored)
qed

lemma fetch_stored:
  "asp_tokens w = Some t \<Longrightarrow>
   fetch_events_for_day E d w = do_http E (Post xhr_url headers (payload (date_mdY E d) t)) w"
  by (simp add: fetch_events_for_day_def capture_tokens_stored)

lemma fetch_effects:
  "out_file (fst (fetch_events_for_day E d w)) = out_file w \<and>
   (\<exists>rs. trace (fst (fetch_events_for_day E d w)) = trace w @ rs \<and> list_all is_request rs)"
proof -
  obtain w1 r where c: "capture_tokens E w = (w1, r)" by (cases "capture_tokens E w")
  from capture_tokens_effects [of E w] c obtain rs where
    o: "out_file w1 = out_file w" and t: "trace w1 = trace w @ rs" and rs: "list_all is_request rs"
    by auto
  show ?thesis
  proof (cases r)
    case (Inl e)
    with c o t rs show ?thesis by (auto simp: fetch_events_for_day_def)
  next
    case (Inr tokens)
    with c have "fst (fetch_events_for_day E d w) =
        emit (Request (Post xhr_url headers (payload (date_mdY E d) tokens))) w1"
      by (simp add: fetch_events_for_day_def)
    with o t rs show ?thesis by auto
  qed
qed

lemma day_step_cases:
  "fst (day_step E c (w, all)) =
     emit (if day_completes E c w then Sleep (1 / 2)
           else Print (ErrorOn c (case snd (fetch_events_for_day E c w) of
                                    Inl e \<Rightarrow> e
                                  | Inr html \<Rightarrow> (case parse_events_from_html E html of Inl e \<Rightarrow> e | Inr _ \<Rightarrow> ValueError))))
       (fst (fetch_events_for_day E c w))"
  by (auto simp: day_step_def day_completes_def split: prod.splits sum.splits)


lemma day_step_events_unchanged_world:
  "out_file (fst (day_step E c (w, all))) = out_file w"
  by (simp add: day_step_cases fetch_effects)

lemma day_step_trace:
  "\<exists>rs x. trace (fst (day_step E c (w, all))) = trace w @ rs @ [x] \<and> list_all is_request rs \<and>
     x = (if day_completes E c w then Sleep (1 / 2)
          else Print (ErrorOn c (case snd (fetch_events_for_day E c w) of
                                    Inl e \<Rightarrow> e
                                  | Inr html \<Rightarrow> (case parse_events_from_html E html of Inl e \<Rightarrow> e | Inr _ \<Rightarrow> ValueError))))"
proof -
  from fetch_effects [of E c w] obtain rs where
    "trace (fst (fetch_events_for_day E c w)) = trace w @ rs" "list_all is_request rs"
    by auto
  then show ?thesis by (simp add: day_step_cases)
qed

lemma filter_requests:
  "list_all is_request rs \<Longrightarrow>
     filter is_sleep rs = [] \<and> filter is_write rs = [] \<and> filter is_error rs = []"
proof (induction rs)
  case Nil
  show ?case by simp
next
  case (Cons r rs)
  then show ?case by (cases r) auto
qed

lemma day_step_sleeps:
  "filter is_sleep (trace (fst (day_step E c (w, all)))) =
     filter is_sleep (trace w) @ (if day_completes E c w then [Sleep (1 / 2)] else [])"
proof -
  from day_step_trace [of E c w all] obtain rs x where
    t: "trace (fst (day_step E c (w, all))) = trace w @ rs @ [x]" and rs: "list_all is_request rs"
    and x: "x = (if day_completes E c w then Sleep (1 / 2)
          else Print (ErrorOn c (case snd (fetch_events_for_day E c w) of
                                    Inl e \<Rightarrow> e
                                  | Inr html \<Rightarrow> (case parse_events_from_html E html of Inl e \<Rightarrow> e | Inr _ \<Rightarrow> ValueError))))"
    by blast
  from rs have "filter is_sleep rs = []" by (simp add: filter_requests)
  with t x show ?thesis by simp
qed

lemma day_step_errors:
  "filter is_error (trace (fst (day_step E c (w, all)))) =
     filter is_error (trace w) @
       (if day_completes E c w then []
        else [Print (ErrorOn c (case snd (fetch_events_for_day E c w) of
                                    Inl e \<Rightarrow> e
                                  | Inr html \<Rightarrow> (case parse_events_from_html E html of Inl e \<Rightarrow> e | Inr _ \<Rightarrow> ValueError)))])"
proof -
  from day_step_trace [of E c w all] obtain rs x where
    t: "trace (fst (day_step E c (w, all))) = trace w @ rs @ [x]" and rs: "list_all is_request rs"
    and x: "x = (if day_completes E c w then Sleep (1 / 2)
          else Print (ErrorOn c (case snd (fetch_events_for_day E c w) of
                                    Inl e \<Rightarrow> e
                                  | Inr html \<Rightarrow> (case parse_events_from_html E html of Inl e \<Rightarrow> e | Inr _ \<Rightarrow> ValueError))))"
    by blast
  from rs have "filter is_error rs = []" by (simp add: filter_requests)
  with t x show ?thesis by simp
qed

lemma day_step_writes:
  "filter is_write (trace (fst (day_step E c (w, all)))) = filter is_write (trace w)"
proof -
  from day_step_trace [of E c w all] obtain rs x where
    t: "trace (fst (day_step E c (w, all))) = trace w @ rs @ [x]" and rs: "list_all is_request rs"
    and x: "x = (if day_completes E c w then Sleep (1 / 2)
          else Print (ErrorOn c (case snd (fetch_events_for_day E c w) of
                                    Inl e \<Rightarrow> e
                                  | Inr html \<Rightarrow> (case parse_events_from_html E html of Inl e \<Rightarrow> e | Inr _ \<Rightarrow> ValueError))))"
    by blast
  from rs have "filter is_write rs = []" by (simp add: filter_requests)
  with t x show ?thesis by simp
qed

lemma day_loop_Nil [simp]: "day_loop E s [] st = st"
  by (simp add: day_loop_def)

lemma day_loop_Cons [simp]: "day_loop E s (i # is) st = day_loop E s is (day_step E (s + int i) st)"
  by (simp add: day_loop_def)

lemma day_loop_file:
  "out_file (fst (day_loop E s is st)) = out_file (fst st) \<and>
   filter is_write (trace (fst (day_loop E s is st))) = filter is_write (trace (fst st))"
proof (induction "is" arbitrary: st)
  case Nil
  show ?case by simp
next
  case (Cons i "is")
  obtain w all where st: "st = (w, all)" by (cases st)
  show ?case
    using Cons.IH [of "day_step E (s + int i) (w, all)"]
    by (simp add: st day_step_events_unchanged_world day_step_writes)
qed

lemma day_loop_count:
  "length (filter is_sleep (trace (fst (day_loop E s is st)))) +
   length (filter is_error (trace (fst (day_loop E s is st)))) =
   length (filter is_sleep (trace (fst st))) + length (filter is_error (trace (fst st))) + length is"
proof (induction "is" arbitrary: st)
  case Nil
  show ?case by simp
next
  case (Cons i "is")
  obtain w all where st: "st = (w, all)" by (cases st)
  show ?case
    using Cons.IH [of "day_step E (s + int i) (w, all)"]
    by (simp add: st day_step_sleeps day_step_errors)
qed

lemma uid_dict_keys: "fst ` set (uid_dict sha1 all) = uid sha1 ` set all"
  unfolding uid_dict_def fold_dict_keys by simp

lemma final_events_Nil: "final_events sha1 all = [] \<longleftrightarrow> all = []"
proof -
  have "final_events sha1 all = [] \<longleftrightarrow> length (final_events sha1 all) = 0"
    by simp
  also have "\<dots> \<longleftrightarrow> uid_dict sha1 all = []"
    by (simp add: final_events_def)
  also have "\<dots> \<longleftrightarrow> fst ` set (uid_dict sha1 all) = {}"
    by simp
  also have "\<dots> \<longleftrightarrow> all = []"
    unfolding uid_dict_keys by simp
  finally show ?thesis .
qed

lemma finish_empty: "finish E (w, []) = emit (Print Fail) w"
  by (simp add: finish_def)

lemma finish_events:
  "all \<noteq> [] \<Longrightarrow> finish E (w, all) =
     emit (Print (Success (length (final_events (sha1_hex E) all))))
       (write_text (build_ics (utc_stamp E) (sha1_hex E) (final_events (sha1_hex E) all)) w)"
  by (simp add: finish_def Let_def)

lemma finish_counts:
  "filter is_sleep (trace (finish E st)) = filter is_sleep (trace (fst st)) \<and>
   filter is_error (trace (finish E st)) = filter is_error (trace (fst st))"
  by (cases st; cases "snd st = []") (simp_all add: finish_empty finish_events write_text_def)

subsection \<open>The empty run\<close>

text \<open>
  C5. When no event has been collected over the window, the run ends with the failure
  message and the output file is as it was before the run, absent or with its former
  contents: the run has written nothing. A run that writes the file has a final list
  that is not empty.
\<close>

theorem empty_run_leaves_file:
  "(snd (day_loop E start_date [0..<days_to_pull] (emit (Print (Starting days_to_pull)) w, [])) = [] \<longrightarrow>
      out_file (main E start_date w) = out_file w \<and>
      filter is_write (trace (main E start_date w)) = filter is_write (trace w) \<and>
      last (trace (main E start_date w)) = Print Fail) \<and>
   (filter is_write (trace (main E start_date w)) \<noteq> filter is_write (trace w) \<longrightarrow>
      final_events (sha1_hex E)
        (snd (day_loop E start_date [0..<days_to_pull] (emit (Print (Starting days_to_pull)) w, []))) \<noteq> [])"
proof -
  let ?st = "day_loop E start_date [0..<days_to_pull] (emit (Print (Starting days_to_pull)) w, [])"
  have m: "main E start_date w = finish E (fst ?st, snd ?st)"
    by (simp add: main_def)
  from day_loop_file [of E start_date "[0..<days_to_pull]" "(emit (Print (Starting days_to_pull)) w, [])"]
  have f: "out_file (fst ?st) = out_file w"
    and t: "filter is_write (trace (fst ?st)) = filter is_write (trace w)"
    by simp_all
  have a: "out_file (main E start_date w) = out_file w \<and>
      filter is_write (trace (main E start_date w)) = filter is_write (trace w) \<and>
      last (trace (main E start_date w)) = Print Fail" if "snd ?st = []"
    unfolding m that finish_empty using f t by simp
  then have "filter is_write (trace (main E start_date w)) \<noteq> filter is_write (trace w) \<longrightarrow>
      snd ?st \<noteq> []"
    by blast
  then have b: "filter is_write (trace (main E start_date w)) \<noteq> filter is_write (trace w) \<longrightarrow>
      final_events (sha1_hex E) (snd ?st) \<noteq> []"
    by (simp add: final_events_Nil)
  from a b show ?thesis by blast
qed

theorem empty_run_leaves_file_witness:
  "snd (day_loop server_down 0 [0..<days_to_pull]
          (emit (Print (Starting days_to_pull)) (fresh (Some ''BEGIN:VCALENDAR'')), [])) = [] \<and>
   out_file (main server_down 0 (fresh (Some ''BEGIN:VCALENDAR''))) = Some ''BEGIN:VCALENDAR'' \<and>
   filter is_write (trace (main server_down 0 (fresh (Some ''BEGIN:VCALENDAR'')))) = [] \<and>
   last (trace (main server_down 0 (fresh (Some ''BEGIN:VCALENDAR'')))) = Print Fail"
proof -
  have e: "snd (day_loop server_down 0 [0..<days_to_pull]
          (emit (Print (Starting days_to_pull)) (fresh (Some ''BEGIN:VCALENDAR'')), [])) = []"
    by code_simp
  from e empty_run_leaves_file [of server_down 0 "fresh (Some ''BEGIN:VCALENDAR'')"]
  show ?thesis by (simp add: fresh_def)
qed

subsection \<open>The delay between days\<close>

text \<open>
  C7, as the program has it. An iteration of the loop over days ends with a delay of 0.5
  exactly when the fetch and the extraction of its day went through without raising; an
  iteration whose step raised ends with the report of the error and makes no delay. Over
  the run, every one of the 14 iterations ends with one of the two. The statement that
  every iteration makes the delay, also after an exception, fails on a run in which the
  server does not answer: its first iteration issues the request and reports the error,
  and the whole run has 14 error reports and no delay.
\<close>

theorem delay_after_completed_day_only:
  "filter is_sleep (trace (fst (day_step E current (w, all_events)))) =
     filter is_sleep (trace w) @ (if day_completes E current w then [Sleep (1 / 2)] else []) \<and>
   (\<exists>rs x. trace (fst (day_step E current (w, all_events))) = trace w @ rs @ [x] \<and>
      list_all is_request rs \<and>
      (day_completes E current w \<longrightarrow> x = Sleep (1 / 2)) \<and>
      (\<not> day_completes E current w \<longrightarrow> (\<exists>e. x = Print (ErrorOn current e)))) \<and>
   length (filter is_sleep (trace (main E start_date w))) +
   length (filter is_error (trace (main E start_date w))) =
     length (filter is_sleep (trace w)) + length (filter is_error (trace w)) + days_to_pull"
proof -
  have a: "filter is_sleep (trace (fst (day_step E current (w, all_events)))) =
     filter is_sleep (trace w) @ (if day_completes E current w then [Sleep (1 / 2)] else [])"
    by (rule day_step_sleeps)
  have b: "\<exists>rs x. trace (fst (day_step E current (w, all_events))) = trace w @ rs @ [x] \<and>
      list_all is_request rs \<and>
      (day_completes E current w \<longrightarrow> x = Sleep (1 / 2)) \<and>
      (\<not> day_completes E current w \<longrightarrow> (\<exists>e. x = Print (ErrorOn current e)))"
    using day_step_trace [of E current w all_events] by auto
  let ?st = "day_loop E start_date [0..<days_to_pull] (emit (Print (Starting days_to_pull)) w, [])"
  have c: "length (filter is_sleep (trace (main E start_date w))) +
   length (filter is_error (trace (main E start_date w))) =
     length (filter is_sleep (trace w)) + length (filter is_error (trace w)) + days_to_pull"
    unfolding main_def
    using day_loop_count [of E start_date "[0..<days_to_pull]" "(emit (Print (Starting days_to_pull)) w, [])"]
    by (simp add: finish_counts)
  from a b c show ?thesis by blast
qed

theorem delay_after_completed_day_only_witness:
  "day_completes first_call_fails 1 with_tokens \<and>
   filter is_sleep (trace (fst (day_step first_call_fails 1 (with_tokens, [])))) = [Sleep (1 / 2)] \<and>
   \<not> day_completes server_down 0 (fresh None) \<and>
   filter is_sleep (trace (fst (day_step server_down 0 (fresh None, [])))) = []"
proof -
  have c: "day_completes first_call_fails 1 with_tokens"
    by code_simp
  have d: "\<not> day_completes server_down 0 (fresh None)"
    by code_simp
  have s: "filter is_sleep (trace with_tokens) = []" "filter is_sleep (trace (fresh None)) = []"
    by (simp_all add: with_tokens_def fresh_def)
  from c d s delay_after_completed_day_only [of first_call_fails 1 with_tokens "[]"]
    delay_after_completed_day_only [of server_down 0 "fresh None" "[]"]
  show ?thesis by simp
qed

theorem delay_on_every_iteration_counterexample:
  "day_step server_down 0 (fresh None, []) =
     (\<lparr>asp_tokens = None, out_file = None,
       trace = [Request (Get search_url), Print (ErrorOn 0 RequestException)]\<rparr>, []) \<and>
   filter is_sleep (trace (main server_down 0 (fresh None))) = [] \<and>
   length (filter is_error (trace (main server_down 0 (fresh None)))) = 14"
  by code_simp

subsection \<open>The token mapping\<close>

lemma fetch_stored_world:
  assumes "asp_tokens w = Some t"
  shows "asp_tokens (fst (fetch_events_for_day E d w)) = Some t"
    and "trace (fst (fetch_events_for_day E d w)) =
           trace w @ [Request (Post xhr_url headers (payload (date_mdY E d) t))]"
  using assms by (simp_all add: fetch_stored)

lemma day_step_stored:
  assumes "asp_tokens w = Some t"
  shows "asp_tokens (fst (day_step E c (w, all))) = Some t \<and>
         filter is_get (trace (fst (day_step E c (w, all)))) = filter is_get (trace w)"
  using assms by (simp add: day_step_cases fetch_stored)

lemma day_loop_stored:
  "asp_tokens (fst st) = Some t \<Longrightarrow>
   asp_tokens (fst (day_loop E s is st)) = Some t \<and>
   filter is_get (trace (fst (day_loop E s is st))) = filter is_get (trace (fst st))"
proof (induction "is" arbitrary: st)
  case Nil
  then show ?case by simp
next
  case (Cons i "is")
  obtain w all where st: "st = (w, all)" by (cases st)
  with Cons.prems have w: "asp_tokens w = Some t" by simp
  from day_step_stored [OF w, of E "s + int i" all]
  have a: "asp_tokens (fst (day_step E (s + int i) (w, all))) = Some t"
    and b: "filter is_get (trace (fst (day_step E (s + int i) (w, all)))) = filter is_get (trace w)"
    by simp_all
  from Cons.IH [OF a] b show ?case by (simp add: st)
qed

lemma fetch_absent:
  assumes "asp_tokens w = None"
  shows "(\<exists>rest. trace (fst (fetch_events_for_day E d w)) = trace w @ Request (Get search_url) # rest) \<and>
     (case http E (length (filter is_request (trace w))) (Get search_url) of
        Inl e \<Rightarrow> fetch_events_for_day E d w = (emit (Request (Get search_url)) w, Inl e)
      | Inr text \<Rightarrow>
          (case landing_inputs E text of
             Inl e \<Rightarrow> fetch_events_for_day E d w = (emit (Request (Get search_url)) w, Inl e)
           | Inr soup_find \<Rightarrow>
               asp_tokens (fst (fetch_events_for_day E d w)) = Some (extract_tokens soup_find)))"
  unfolding fetch_events_for_day_def capture_tokens_absent [OF assms]
  by (auto split: sum.splits)

lemma extract_tokens_keys:
  "map fst (extract_tokens soup_find) = filter (\<lambda>f. soup_find f \<noteq> None) token_fields"
  by (cases "soup_find ''__VIEWSTATE''"; cases "soup_find ''__VIEWSTATEGENERATOR''";
      cases "soup_find ''__EVENTVALIDATION''")
     (simp_all add: extract_tokens_def token_fields_def)


lemma fold_tokens_lookup:
  "map_of (foldl (\<lambda>d f. case soup_find f of None \<Rightarrow> d | Some attrs \<Rightarrow> dict_set d f (val attrs)) d0 fs) f =
     (if f \<in> set fs then (case soup_find f of None \<Rightarrow> map_of d0 f | Some attrs \<Rightarrow> Some (val attrs))
      else map_of d0 f)"
proof (induction fs arbitrary: d0)
  case Nil
  show ?case by simp
next
  case (Cons x fs)
  show ?case
    by (cases "soup_find x") (auto simp: Cons.IH dict_set_lookup split: option.splits)
qed

lemma extract_tokens_value:
  assumes "f \<in> set token_fields" and "soup_find f = Some attrs"
  shows "map_of (extract_tokens soup_find) f =
       Some (case map_of attrs ''value'' of None \<Rightarrow> [] | Some v \<Rightarrow> v)"
  unfolding extract_tokens_def fold_tokens_lookup using assms by simp

text \<open>
  C9, as the program has it. The token mapping is stored at most once in a run. An
  invocation of the fetch that finds a mapping stored issues the POST with this mapping
  and no GET, and leaves the mapping as it is, whatever the POST answers; so does every
  iteration of the loop over days from then on. An invocation that finds no mapping
  stored issues the GET of the landing page first: when the GET or the parsing of the
  page raises, the invocation ends there and still no mapping is stored, so that the
  next invocation issues the GET again; otherwise the mapping extracted from the page is
  stored. The mapping holds the hidden fields that the page has, in the order of the
  three names, each with its value attribute or the empty text; a field that the page
  lacks is left out. The statement that the GET is made on the first invocation only
  fails on a run whose first request fails: the second invocation issues the GET again
  and stores the mapping.
\<close>

theorem token_mapping_stored_once:
  "(asp_tokens w = Some t \<longrightarrow>
      asp_tokens (fst (fetch_events_for_day E d w)) = Some t \<and>
      trace (fst (fetch_events_for_day E d w)) =
        trace w @ [Request (Post xhr_url headers (payload (date_mdY E d) t))]) \<and>
   (asp_tokens w = Some t \<longrightarrow>
      asp_tokens (fst (day_loop E start_date is (w, all_events))) = Some t \<and>
      filter is_get (trace (fst (day_loop E start_date is (w, all_events)))) = filter is_get (trace w)) \<and>
   (asp_tokens w = None \<longrightarrow>
      (\<exists>rest. trace (fst (fetch_events_for_day E d w)) = trace w @ Request (Get search_url) # rest) \<and>
      (case http E (length (filter is_request (trace w))) (Get search_url) of
         Inl e \<Rightarrow> fetch_events_for_day E d w = (emit (Request (Get search_url)) w, Inl e)
       | Inr text \<Rightarrow>
           (case landing_inputs E text of
              Inl e \<Rightarrow> fetch_events_for_day E d w = (emit (Request (Get search_url)) w, Inl e)
            | Inr soup_find \<Rightarrow>
                asp_tokens (fst (fetch_events_for_day E d w)) = Some (extract_tokens soup_find)))) \<and>
   map fst (extract_tokens page) = filter (\<lambda>f. page f \<noteq> None) token_fields \<and>
   (f \<in> set token_fields \<and> page f = Some attrs \<longrightarrow>
      map_of (extract_tokens page) f = Some (case map_of attrs ''value'' of None \<Rightarrow> [] | Some v \<Rightarrow> v))"
proof -
  have a: "asp_tokens w = Some t \<longrightarrow>
      asp_tokens (fst (fetch_events_for_day E d w)) = Some t \<and>
      trace (fst (fetch_events_for_day E d w)) =
        trace w @ [Request (Post xhr_url headers (payload (date_mdY E d) t))]"
    using fetch_stored_world [of w t E d] by blast
  have b: "asp_tokens w = Some t \<longrightarrow>
      asp_tokens (fst (day_loop E start_date is (w, all_events))) = Some t \<and>
      filter is_get (trace (fst (day_loop E start_date is (w, all_events)))) = filter is_get (trace w)"
    using day_loop_stored [of "(w, all_events)" t E start_date "is"] by simp
  have c: "asp_tokens w = None \<longrightarrow>
      (\<exists>rest. trace (fst (fetch_events_for_day E d w)) = trace w @ Request (Get search_url) # rest) \<and>
      (case http E (length (filter is_request (trace w))) (Get search_url) of
         Inl e \<Rightarrow> fetch_events_for_day E d w = (emit (Request (Get search_url)) w, Inl e)
       | Inr text \<Rightarrow>
           (case landing_inputs E text of
              Inl e \<Rightarrow> fetch_events_for_day E d w = (emit (Request (Get search_url)) w, Inl e)
            | Inr soup_find \<Rightarrow>
                asp_tokens (fst (fetch_events_for_day E d w)) = Some (extract_tokens soup_find)))"
    using fetch_absent [of w E d] by blast
  have d: "map fst (extract_tokens page) = filter (\<lambda>f. page f \<noteq> None) token_fields"
    by (rule extract_tokens_keys)
  have e: "f \<in> set token_fields \<and> page f = Some attrs \<longrightarrow>
      map_of (extract_tokens page) f = Some (case map_of attrs ''value'' of None \<Rightarrow> [] | Some v \<Rightarrow> v)"
    using extract_tokens_value [of f page attrs] by blast
  from a b c d e show ?thesis by blast
qed

theorem token_mapping_stored_once_witness:
  "asp_tokens with_tokens = Some [(''__VIEWSTATE'', ''abc'')] \<and>
   asp_tokens (fst (fetch_events_for_day first_call_fails 3 with_tokens)) = Some [(''__VIEWSTATE'', ''abc'')] \<and>
   trace (fst (fetch_events_for_day first_call_fails 3 with_tokens)) =
     [Request (Get search_url),
      Request (Post xhr_url headers (payload ''01/05/2025'' [(''__VIEWSTATE'', ''abc'')]))] \<and>
   asp_tokens (fst (day_loop first_call_fails 0 [0..<days_to_pull] (with_tokens, []))) =
     Some [(''__VIEWSTATE'', ''abc'')] \<and>
   filter is_get (trace (fst (day_loop first_call_fails 0 [0..<days_to_pull] (with_tokens, [])))) =
     [Request (Get search_url)]"
proof -
  have t: "asp_tokens with_tokens = Some [(''__VIEWSTATE'', ''abc'')]"
    by (simp add: with_tokens_def)
  have g: "filter is_get (trace with_tokens) = [Request (Get search_url)]"
    "trace with_tokens = [Request (Get search_url)]"
    by (simp_all add: with_tokens_def)
  have m: "date_mdY first_call_fails 3 = ''01/05/2025''"
    by (simp add: first_call_fails_def)
  from t g m
    token_mapping_stored_once [of with_tokens "[(''__VIEWSTATE'', ''abc'')]" first_call_fails 3 0
      "[0..<days_to_pull]" "[]"]
  show ?thesis by simp
qed

theorem get_only_on_first_invocation_counterexample:
  "fetch_events_for_day first_call_fails 0 (fresh None) =
     (\<lparr>asp_tokens = None, out_file = None, trace = [Request (Get search_url)]\<rparr>,
      Inl RequestException) \<and>
   fetch_events_for_day first_call_fails 1
     \<lparr>asp_tokens = None, out_file = None, trace = [Request (Get search_url)]\<rparr> =
     (\<lparr>asp_tokens = Some [(''__VIEWSTATE'', ''abc'')], out_file = None,
       trace = [Request (Get search_url), Request (Get search_url),
                Request (Post xhr_url headers
                  [(''sDate'', ''01/05/2025''), (''eDate'', ''01/05/2025''),
                   (''btnSubmit'', ''Search''), (''List'', ''1''), (''__VIEWSTATE'', ''abc'')])]\<rparr>,
      Inr ''<html>'')"
  by code_simp

subsection \<open>The calendar text\<close>

lemma lines_from_line:
  "no_break l \<Longrightarrow>
   lines_from acc (l @ CRLF @ rest) = map_option ((#) (rev acc @ l)) (lines_from [] rest)"
proof (induction l arbitrary: acc)
  case Nil
  show ?case by (simp add: CRLF_def)
next
  case (Cons c l)
  then have nb: "no_break l" and c: "c \<noteq> CHR 0x0A" by (auto simp: no_break_def)
  obtain d cs where dcs: "l @ CRLF @ rest = d # cs" and d: "d \<noteq> CHR 0x0A"
    using nb by (cases l) (auto simp: CRLF_def no_break_def)
  have "lines_from acc ((c # l) @ CRLF @ rest) = lines_from (c # acc) (l @ CRLF @ rest)"
    using d by (simp add: dcs)
  also have "\<dots> = map_option ((#) (rev (c # acc) @ l)) (lines_from [] rest)"
    by (rule Cons.IH [OF nb])
  finally show ?case by simp
qed

lemma crlf_lines_concat:
  "\<forall>l \<in> set ls. no_break l \<Longrightarrow> crlf_lines (concat (map (\<lambda>l. l @ CRLF) ls)) = Some ls"
proof (induction ls)
  case Nil
  show ?case by (simp add: crlf_lines_def)
next
  case (Cons l ls)
  then have "no_break l" and "crlf_lines (concat (map (\<lambda>l. l @ CRLF) ls)) = Some ls" by simp_all
  then show ?case
    using lines_from_line [of l "[]" "concat (map (\<lambda>l. l @ CRLF) ls)"]
    by (simp add: crlf_lines_def)
qed

lemma join_terminated:
  "ls \<noteq> [] \<Longrightarrow> join sep ls @ sep = concat (map (\<lambda>l. l @ sep) ls)"
  by (induction sep ls rule: join.induct) simp_all

lemma build_ics_concat:
  "build_ics now sha1 events = concat (map (\<lambda>l. l @ CRLF) (ics_lines now sha1 events))"
  unfolding build_ics_def by (rule join_terminated) (simp add: ics_lines_def)


lemma no_break_append [simp]: "no_break (a @ b) \<longleftrightarrow> no_break a \<and> no_break b"
  by (auto simp: no_break_def)

lemma no_break_Nil [simp]: "no_break []"
  by (simp add: no_break_def)

lemma no_break_Cons [simp]: "no_break (c # s) \<longleftrightarrow> c \<noteq> CHR 0x0A \<and> no_break s"
  by (auto simp: no_break_def)

lemma digit_char_no_break: "k < 10 \<Longrightarrow> digit_char k \<noteq> CHR 0x0A"
proof
  assume k: "k < 10" and "digit_char k = CHR 0x0A"
  then have "code (digit_char k) = 10" by (simp add: code_def)
  moreover from k have "code (digit_char k) = 48 + k"
    by (simp add: digit_char_def code_char_of)
  ultimately show False by simp
qed

lemma no_break_dec: "no_break (dec n)"
proof (induction n rule: dec.induct)
  case (1 n)
  show ?case
  proof (cases "n < 10")
    case True
    then show ?thesis by (subst dec.simps) (simp add: digit_char_no_break)
  next
    case False
    with 1 have "no_break (dec (n div 10))" by simp
    moreover have "digit_char (n mod 10) \<noteq> CHR 0x0A" by (rule digit_char_no_break) simp
    ultimately show ?thesis using False by (subst dec.simps) simp
  qed
qed

lemma no_break_zpad: "no_break (zpad w n)"
  by (simp add: zpad_def no_break_dec) (simp add: no_break_def)

lemma no_break_stamp: "no_break (stamp d)"
  by (simp add: stamp_def no_break_zpad)

lemma no_break_escape: "no_break s \<Longrightarrow> no_break (escape_commas s)"
  by (induction s) (auto simp: escape_commas_def)

lemma no_break_vevent:
  assumes "no_break now" "no_break (uid sha1 e)" "no_break (title e)" "no_break (location e)"
  shows "\<forall>l \<in> set (vevent_lines now sha1 e). no_break l"
  using assms by (simp add: vevent_lines_def TZID_def no_break_stamp no_break_escape)

lemma no_break_ics:
  assumes "no_break now"
    and "\<forall>e \<in> set events. no_break (uid sha1 e) \<and> no_break (title e) \<and> no_break (location e)"
  shows "\<forall>l \<in> set (ics_lines now sha1 events). no_break l"
proof -
  have "\<forall>l \<in> set (concat (map (vevent_lines now sha1) events)). no_break l"
    using assms no_break_vevent [of now sha1] by auto
  then show ?thesis by (auto simp: ics_lines_def)
qed

lemma count_vevent:
  "filter (\<lambda>l. l = ''BEGIN:VEVENT'') (vevent_lines now sha1 e) = [''BEGIN:VEVENT''] \<and>
   filter (\<lambda>l. l = ''END:VEVENT'') (vevent_lines now sha1 e) = [''END:VEVENT'']"
  by (simp add: vevent_lines_def)

lemma count_concat_vevent:
  "length (filter (\<lambda>l. l = ''BEGIN:VEVENT'') (concat (map (vevent_lines now sha1) events))) = length events \<and>
   length (filter (\<lambda>l. l = ''END:VEVENT'') (concat (map (vevent_lines now sha1) events))) = length events"
  by (induction events) (simp_all add: count_vevent)

lemma count_ics:
  "length (filter (\<lambda>l. l = ''BEGIN:VEVENT'') (ics_lines now sha1 events)) = length events \<and>
   length (filter (\<lambda>l. l = ''END:VEVENT'') (ics_lines now sha1 events)) = length events"
  by (simp add: ics_lines_def count_concat_vevent)


lemma collapse_ws_blank: "c \<in> set (collapse_ws s) \<Longrightarrow> is_space c \<Longrightarrow> c = CHR '' ''"
  by (induction s rule: collapse_ws.induct) (auto split: if_splits)

lemma no_break_normalize_ws: "no_break (normalize_ws s)"
proof -
  have "CHR 0x0A \<notin> set (collapse_ws (strip s))"
  proof
    assume "CHR 0x0A \<in> set (collapse_ws (strip s))"
    moreover have "is_space (CHR 0x0A)" by (simp add: is_space_def code_def)
    ultimately have "CHR 0x0A = CHR '' ''" by (rule collapse_ws_blank)
    then show False by simp
  qed
  then show ?thesis by (simp add: normalize_ws_def no_break_def)
qed

lemma no_break_potential_titles: "\<forall>t \<in> set (potential_titles texts). no_break t"
  by (auto simp: potential_titles_def no_break_normalize_ws)

lemma no_break_select_title:
  assumes "\<forall>t \<in> set pt. no_break t"
  shows "no_break (fst (select_title pt)) \<and> no_break (snd (select_title pt))"
proof -
  have nth: "no_break (pt ! i)" if "i < length pt" for i
    using assms that by simp
  have "no_break ''Unknown CGA Meeting''" by simp
  with nth show ?thesis
    by (auto simp: select_title_def Let_def)
qed

lemma parse_row_no_break:
  assumes "parse_row cols = Inr (Some e)"
  shows "no_break (title e) \<and> no_break (location e)"
proof -
  from assms have "(title e, location e) = select_title (potential_titles (drop 2 cols))"
    by (auto simp: parse_row_def bind_def split: if_splits sum.splits option.splits prod.splits)
  then have "title e = fst (select_title (potential_titles (drop 2 cols)))"
    and "location e = snd (select_title (potential_titles (drop 2 cols)))"
    by (metis fst_conv, metis snd_conv)
  with no_break_select_title [OF no_break_potential_titles, of "drop 2 cols"]
  show ?thesis by simp
qed

text \<open>
  C8, as the program has it. The output of build_ics is the lines that build_ics emits,
  each followed by CR LF, the last one too; among the lines emitted for n events, n are
  BEGIN:VEVENT and n are END:VEVENT. When the timestamp, the uids, the titles and the
  locations hold no line feed, the lines of the output text are the lines emitted, so
  that the text has n lines BEGIN:VEVENT and n lines END:VEVENT. The events that
  parse_row builds have such titles and locations, since their whitespace is collapsed.
  For an arbitrary list of events the statement fails: build_ics escapes commas only, and
  one event whose title holds a line break followed by BEGIN:VEVENT gives a text with two
  lines BEGIN:VEVENT and one line END:VEVENT.
\<close>

theorem build_ics_lines:
  "build_ics now sha1 events = concat (map (\<lambda>l. l @ CRLF) (ics_lines now sha1 events)) \<and>
   length (filter (\<lambda>l. l = ''BEGIN:VEVENT'') (ics_lines now sha1 events)) = length events \<and>
   length (filter (\<lambda>l. l = ''END:VEVENT'') (ics_lines now sha1 events)) = length events \<and>
   (no_break now \<and>
    (\<forall>e \<in> set events. no_break (uid sha1 e) \<and> no_break (title e) \<and> no_break (location e)) \<longrightarrow>
      crlf_lines (build_ics now sha1 events) = Some (ics_lines now sha1 events)) \<and>
   (parse_row cols = Inr (Some ev0) \<longrightarrow> no_break (title ev0) \<and> no_break (location ev0))"
proof -
  have a: "build_ics now sha1 events = concat (map (\<lambda>l. l @ CRLF) (ics_lines now sha1 events))"
    by (rule build_ics_concat)
  have b: "no_break now \<and>
    (\<forall>e \<in> set events. no_break (uid sha1 e) \<and> no_break (title e) \<and> no_break (location e)) \<longrightarrow>
      crlf_lines (build_ics now sha1 events) = Some (ics_lines now sha1 events)"
    unfolding a using no_break_ics [of now events sha1] crlf_lines_concat by blast
  have c: "parse_row cols = Inr (Some ev0) \<longrightarrow> no_break (title ev0) \<and> no_break (location ev0)"
    using parse_row_no_break by blast
  from a b c count_ics [of now sha1 events] show ?thesis by blast
qed

theorem build_ics_lines_witness:
  "no_break ''20250105T120000Z'' \<and>
   no_break (uid fixed_digest (ev 5 9 ''Energy, and more'' ''Room 2'')) \<and>
   no_break (title (ev 5 9 ''Energy, and more'' ''Room 2'')) \<and>
   no_break (location (ev 5 9 ''Energy, and more'' ''Room 2'')) \<and>
   crlf_lines (build_ics ''20250105T120000Z'' fixed_digest [ev 5 9 ''Energy, and more'' ''Room 2'']) =
     Some (ics_lines ''20250105T120000Z'' fixed_digest [ev 5 9 ''Energy, and more'' ''Room 2'']) \<and>
   length (filter (\<lambda>l. l = ''BEGIN:VEVENT'')
     (ics_lines ''20250105T120000Z'' fixed_digest [ev 5 9 ''Energy, and more'' ''Room 2''])) = 1 \<and>
   length (filter (\<lambda>l. l = ''END:VEVENT'')
     (ics_lines ''20250105T120000Z'' fixed_digest [ev 5 9 ''Energy, and more'' ''Room 2''])) = 1"
proof -
  have h: "no_break ''20250105T120000Z''"
    "no_break (uid fixed_digest (ev 5 9 ''Energy, and more'' ''Room 2''))"
    "no_break (title (ev 5 9 ''Energy, and more'' ''Room 2''))"
    "no_break (location (ev 5 9 ''Energy, and more'' ''Room 2''))"
    by (simp_all add: uid_def fixed_digest_def ev_def)
  let ?e = "ev 5 9 ''Energy, and more'' ''Room 2''"
  from build_ics_lines [of "''20250105T120000Z''" fixed_digest "[?e]"]
  have c: "length (filter (\<lambda>l. l = ''BEGIN:VEVENT'') (ics_lines ''20250105T120000Z'' fixed_digest [?e])) = length [?e]"
    and d: "length (filter (\<lambda>l. l = ''END:VEVENT'') (ics_lines ''20250105T120000Z'' fixed_digest [?e])) = length [?e]"
    and i: "no_break ''20250105T120000Z'' \<and>
       (\<forall>e \<in> set [?e]. no_break (uid fixed_digest e) \<and> no_break (title e) \<and> no_break (location e)) \<longrightarrow>
       crlf_lines (build_ics ''20250105T120000Z'' fixed_digest [?e]) =
         Some (ics_lines ''20250105T120000Z'' fixed_digest [?e])"
    by blast+
  from h have "no_break ''20250105T120000Z'' \<and>
       (\<forall>e \<in> set [?e]. no_break (uid fixed_digest e) \<and> no_break (title e) \<and> no_break (location e))"
    by simp
  with i have "crlf_lines (build_ics ''20250105T120000Z'' fixed_digest [?e]) =
         Some (ics_lines ''20250105T120000Z'' fixed_digest [?e])"
    by (rule mp)
  with h c d show ?thesis by simp
qed

theorem build_ics_lines_counterexample:
  "crlf_lines (build_ics ''20250105T120000Z'' fixed_digest [broken]) =
     Some [''BEGIN:VCALENDAR'', ''VERSION:2.0'', ''PRODID:-//CGA//EN'', ''METHOD:PUBLISH'',
           ''BEGIN:VEVENT'',
           ''UID:cga-da39a3ee5e6b4b0d3255bfef95601890afd80709@cga.ct.gov'',
           ''DTSTAMP:20250105T120000Z'',
           ''DTSTART;TZID=America/New_York:20250105T100000'',
           ''SUMMARY:Budget'',
           ''BEGIN:VEVENT'',
           ''LOCATION:Room 2C'',
           ''END:VEVENT'',
           ''END:VCALENDAR''] \<and>
   length [broken] = 1"
  by code_simp

end
